theory Spec2Isabelle
  imports Main "HOL-Library.Word" "HOL-Library.List_Lexorder"
begin

unbundle bit_operations_syntax

section \<open>Bytes, strings and failures\<close>

text \<open>
  A Go \<^verbatim>\<open>[]byte\<close> or \<^verbatim>\<open>string\<close> is a list of 8-bit words; byte arithmetic wraps
  around as in Go. A Go string literal \<^verbatim>\<open>"und"\<close> is written \<open>str ''und''\<close>. Byte lists
  are compared lexicographically with bytes read as unsigned numbers.
\<close>

type_synonym byte = "8 word"
type_synonym bytes = "byte list"

definition str :: "string \<Rightarrow> bytes" where
  "str s = map of_char s"

text \<open>
  The ways a lookup fails. \<open>errSyntax\<close> is the error value of that name, and
  \<open>ValueError\<close> the struct of that name with the contents of its byte array \<^verbatim>\<open>v\<close>, as
  \<^verbatim>\<open>getRegionM49\<close> returns it (the value-range failure of the spec). \<open>ErrInvalid\<close> is what
  \<^verbatim>\<open>mkErrInvalid\<close> returns. \<open>Panic\<close> is a Go run-time panic: an index or a slice bound
  out of range.
\<close>

datatype error = errSyntax | ErrInvalid bytes | ValueError bytes | Panic

text \<open>
  Modelled from the spec: \<^verbatim>\<open>mkErrInvalid\<close> is declared outside lookup.go. The spec (7) has
  it build the invalid-subtag failure, a failure kind of its own that carries the
  rejected input.
\<close>

definition mkErrInvalid :: "bytes \<Rightarrow> error" where
  "mkErrInvalid s = ErrInvalid s"

text \<open>Indexing a Go array or slice: \<open>None\<close> where Go panics.\<close>

definition at :: "'a list \<Rightarrow> nat \<Rightarrow> 'a option" where
  "at xs i = (if i < length xs then Some (xs ! i) else None)"

section \<open>The Go library functions the code calls\<close>

subsection \<open>sort.Search\<close>

text \<open>
  \<^verbatim>\<open>i, j := 0, n; for i < j { h := int(uint(i+j) >> 1); if !f(h) { i = h + 1 } else { j = h } }; return i\<close>
\<close>

function Search_loop :: "(nat \<Rightarrow> bool) \<Rightarrow> nat \<Rightarrow> nat \<Rightarrow> nat" where
  "Search_loop f i j =
     (if i < j then
        (if \<not> f ((i + j) div 2) then Search_loop f ((i + j) div 2 + 1) j
         else Search_loop f i ((i + j) div 2))
      else i)"
  by pat_completeness auto
termination
  by (relation "measure (\<lambda>(f, i, j). j - i)") auto

declare Search_loop.simps [simp del]

definition Search :: "nat \<Rightarrow> (nat \<Rightarrow> bool) \<Rightarrow> nat" where
  "Search n f = Search_loop f 0 n"

subsection \<open>strconv.ParseUint(s, 10, 10)\<close>

definition isDigit :: "byte \<Rightarrow> bool" where
  "isDigit c = (0x30 \<le> c \<and> c \<le> 0x39)"

fun ParseUint_loop :: "nat \<Rightarrow> bytes \<Rightarrow> nat option" where
  "ParseUint_loop n [] = Some n"
| "ParseUint_loop n (c # cs) =
     (if isDigit c then ParseUint_loop (n * 10 + unat (c - 0x30)) cs else None)"

text \<open>Base 10 and bit size 10: no sign, no underscore, a value below \<open>2 ^ 10\<close>; \<open>None\<close> is
  the non-nil error.\<close>

definition ParseUint :: "bytes \<Rightarrow> nat option" where
  "ParseUint s =
     (if s = [] then None
      else (case ParseUint_loop 0 s of
              None \<Rightarrow> None
            | Some n \<Rightarrow> if n < 2 ^ 10 then Some n else None))"

subsection \<open>Decimal formatting: fmt.Fprint of an int, fmt.Sprintf("%03d")\<close>

function decimal :: "nat \<Rightarrow> bytes" where
  "decimal n = (if n < 10 then [0x30 + of_nat n]
                else decimal (n div 10) @ [0x30 + of_nat (n mod 10)])"
  by pat_completeness auto
termination
  by (relation "measure id") auto

declare decimal.simps [simp del]

definition itoa :: "int \<Rightarrow> bytes" where
  "itoa n = (if n < 0 then 0x2D # decimal (nat (- n)) else decimal (nat n))"

definition Sprintf_03d :: "int \<Rightarrow> bytes" where
  "Sprintf_03d n =
     (let sign = (if n < 0 then [0x2D] else []); d = decimal (nat \<bar>n\<bar>)
      in sign @ replicate (3 - length sign - length d) 0x30 @ d)"

subsection \<open>Slices over arrays, bytes.Buffer\<close>

text \<open>
  A slice is a window on a backing array: the array's address, the offset of the window,
  its length and its capacity. The heap maps addresses to array contents.
\<close>

type_synonym addr = nat

record heap =
  mem :: "addr \<Rightarrow> bytes"
  next_addr :: addr

record slice =
  sl_arr :: addr
  sl_off :: nat
  sl_len :: nat
  sl_cap :: nat

definition empty_heap :: heap where
  "empty_heap = \<lparr>mem = (\<lambda>_. []), next_addr = 0\<rparr>"

text \<open>A fresh zeroed array of \<open>n\<close> bytes, and the slice \<^verbatim>\<open>a[:]\<close> of the whole of it.\<close>

definition new_array :: "heap \<Rightarrow> nat \<Rightarrow> heap \<times> addr" where
  "new_array h n =
     (h\<lparr>mem := (mem h)(next_addr h := replicate n 0), next_addr := next_addr h + 1\<rparr>, next_addr h)"

definition whole_slice :: "addr \<Rightarrow> nat \<Rightarrow> slice" where
  "whole_slice a n = \<lparr>sl_arr = a, sl_off = 0, sl_len = n, sl_cap = n\<rparr>"

fun write_at :: "bytes \<Rightarrow> nat \<Rightarrow> bytes \<Rightarrow> bytes" where
  "write_at xs i [] = xs"
| "write_at xs i (p # ps) = write_at (xs[i := p]) (i + 1) ps"

text \<open>
  \<^verbatim>\<open>bytes.NewBuffer(buf)\<close> takes \<^verbatim>\<open>buf\<close> as the buffer's initial \<^emph>\<open>contents\<close>: what is
  written goes after the \<open>sl_len\<close> bytes already there. Nothing is read from the buffer
  in this program, so its read offset stays 0 and is left out.
  \<^verbatim>\<open>Buffer.Write(p)\<close> appends \<^verbatim>\<open>p\<close>: in place when the capacity has room for it, and
  otherwise into a fresh array of capacity \<^verbatim>\<open>2*cap + len(p)\<close> to which the old contents
  are copied; the old array is then left as it was.
\<close>

definition NewBuffer :: "slice \<Rightarrow> slice" where
  "NewBuffer buf = buf"

definition Buffer_Write :: "heap \<Rightarrow> slice \<Rightarrow> bytes \<Rightarrow> heap \<times> slice" where
  "Buffer_Write h b p =
     (if sl_len b + length p \<le> sl_cap b then
        (h\<lparr>mem := (mem h)(sl_arr b := write_at (mem h (sl_arr b)) (sl_off b + sl_len b) p)\<rparr>,
         b\<lparr>sl_len := sl_len b + length p\<rparr>)
      else
        (let c = 2 * sl_cap b + length p;
             old = take (sl_len b) (drop (sl_off b) (mem h (sl_arr b)));
             a = next_addr h
         in (h\<lparr>mem := (mem h)(a := old @ p @ replicate (c - sl_len b - length p) 0),
               next_addr := a + 1\<rparr>,
             \<lparr>sl_arr = a, sl_off = 0, sl_len = sl_len b + length p, sl_cap = c\<rparr>)))"

text \<open>\<^verbatim>\<open>fmt.Fprint(w, n)\<close> formats \<^verbatim>\<open>n\<close> and hands the bytes to \<^verbatim>\<open>w.Write\<close> in one call.\<close>

definition Fprint :: "heap \<Rightarrow> slice \<Rightarrow> int \<Rightarrow> heap \<times> slice" where
  "Fprint h w n = Buffer_Write h w (itoa n)"

section \<open>Package internal/tag\<close>

text \<open>
  Modelled from the spec: \<^verbatim>\<open>tag.FixCase\<close> (package internal/tag) is not in lookup.go. The
  spec (4.1) says: the buffer is case-normalised in place against a template of the same
  length; each byte must be a letter or digit matching the template's class, and its
  case is forced to the template's; a class mismatch or a length mismatch makes the call
  fail. The letters and digits are those of ASCII.
\<close>

definition isUpper :: "byte \<Rightarrow> bool" where
  "isUpper c = (0x41 \<le> c \<and> c \<le> 0x5A)"

definition isLower :: "byte \<Rightarrow> bool" where
  "isLower c = (0x61 \<le> c \<and> c \<le> 0x7A)"

definition isLetter :: "byte \<Rightarrow> bool" where
  "isLetter c = (isUpper c \<or> isLower c)"

definition toUpper :: "byte \<Rightarrow> byte" where
  "toUpper c = (if isLower c then c - 0x20 else c)"

definition toLower :: "byte \<Rightarrow> byte" where
  "toLower c = (if isUpper c then c + 0x20 else c)"

definition fixByte :: "byte \<Rightarrow> byte \<Rightarrow> byte option" where
  "fixByte f c =
     (if isDigit f then (if isDigit c then Some c else None)
      else if isUpper f then (if isLetter c then Some (toUpper c) else None)
      else if isLower f then (if isLetter c then Some (toLower c) else None)
      else None)"

text \<open>\<open>FixCase form b\<close> is \<open>None\<close> where the Go function returns false, and otherwise the
  contents of the buffer \<^verbatim>\<open>b\<close> after the call (the callers in lookup.go drop the buffer
  when the call fails).\<close>

fun FixCase :: "bytes \<Rightarrow> bytes \<Rightarrow> bytes option" where
  "FixCase [] [] = Some []"
| "FixCase (f # fs) (c # cs) =
     (case fixByte f c of
        None \<Rightarrow> None
      | Some c' \<Rightarrow> (case FixCase fs cs of None \<Rightarrow> None | Some cs' \<Rightarrow> Some (c' # cs')))"
| "FixCase _ _ = None"

text \<open>
  Modelled from the spec: \<^verbatim>\<open>isAlpha\<close> (parse.go) is not in lookup.go; the spec (4.4) has
  the region resolver test whether the first character is alphabetic.
\<close>

definition isAlpha :: "byte \<Rightarrow> bool" where
  "isAlpha c = isLetter c"

text \<open>
  Modelled from the spec: \<^verbatim>\<open>tag.Compare\<close> is not in lookup.go; the spec (4.4) has it
  compare three bytes exactly, and 0 is its result on equal strings.
\<close>

definition Compare :: "bytes \<Rightarrow> bytes \<Rightarrow> int" where
  "Compare a b = (if a < b then - 1 else if a = b then 0 else 1)"

text \<open>
  Modelled from the spec: the type \<^verbatim>\<open>tag.Index\<close> and its methods \<^verbatim>\<open>Elem\<close>, \<^verbatim>\<open>Index\<close> and
  \<^verbatim>\<open>Next\<close> are not in lookup.go. The spec (3, 4.1, 9) says: an immutable table of
  fixed-length byte records, sorted by a key prefix; \<^verbatim>\<open>Index\<close> is a binary search that
  locates the first record not below the key, and equality is required for a hit;
  \<^verbatim>\<open>Next\<close> gives the following record while the prefix still matches.
  The table is one string of 4-byte records (the source reads \<^verbatim>\<open>lang[id<<2:]\<close>).
  \<open>Index_key s n i\<close> is the first \<open>n\<close> bytes of record \<open>i\<close>; \<open>Index_Elem\<close> is the
  whole record, a panic when the slot is outside the string. \<open>None\<close> stands for the -1 of
  \<^verbatim>\<open>Index\<close> and \<^verbatim>\<open>Next\<close>.
\<close>

type_synonym Index = bytes

definition Index_key :: "Index \<Rightarrow> nat \<Rightarrow> nat \<Rightarrow> bytes" where
  "Index_key s n i = take n (take 4 (drop (i * 4) s))"

definition Index_Elem :: "Index \<Rightarrow> nat \<Rightarrow> error + bytes" where
  "Index_Elem s x = (if x * 4 + 4 \<le> length s then Inr (take 4 (drop (x * 4) s)) else Inl Panic)"

definition Index_Index :: "Index \<Rightarrow> bytes \<Rightarrow> nat option" where
  "Index_Index s key =
     (let index = Search (length s div 4) (\<lambda>i. key \<le> Index_key s (length key) i)
      in if index < length s div 4 \<and> Index_key s (length key) index = key
         then Some index else None)"

definition Index_Next :: "Index \<Rightarrow> bytes \<Rightarrow> nat \<Rightarrow> nat option" where
  "Index_Next s key x =
     (if (x + 1) * 4 < length s \<and> Index_key s (length key) (x + 1) = key
      then Some (x + 1) else None)"

text \<open>The loop \<^verbatim>\<open>for i := idx.Index(key); i != -1; i = idx.Next(key, i) { if e := idx.Elem(i);
  p(e) { return ... i ... } }\<close> of the source, up to the slot it returns with: \<open>Inr (Some i)\<close>
  when the body returns at slot \<open>i\<close>, \<open>Inr None\<close> when the loop runs out.\<close>

function scan :: "Index \<Rightarrow> bytes \<Rightarrow> (bytes \<Rightarrow> bool) \<Rightarrow> nat option \<Rightarrow> error + nat option" where
  "scan idx key p None = Inr None"
| "scan idx key p (Some i) =
     (case Index_Elem idx i of
        Inl e \<Rightarrow> Inl e
      | Inr e \<Rightarrow> if p e then Inr (Some i) else scan idx key p (Index_Next idx key i))"
  by pat_completeness auto
termination
  by (relation "measure (\<lambda>(idx, key, p, io). case io of None \<Rightarrow> 0 | Some i \<Rightarrow> Suc (length idx - i))")
     (auto simp: Index_Next_def split: if_splits)

section \<open>The registry tables\<close>

type_synonym langID = "16 word"
type_synonym regionID = "16 word"
type_synonym scriptID = "8 word"
type_synonym currencyID = "16 word"

text \<open>
  Modelled from the spec: the type \<^verbatim>\<open>langAliasType\<close> is declared outside lookup.go, which
  names its value \<^verbatim>\<open>langAliasTypeUnknown\<close>. The spec (3, 4.6) has the classification tell
  a macrolanguage substitution from a legacy or deprecated one, and from no alias.
\<close>

datatype langAliasType = langDeprecated | langMacro | langLegacy | langAliasTypeUnknown

text \<open>
  The generated tables and constants (tables.go) are not part of lookup.go: they are the
  parameters of every function below, collected in one immutable record. The numbers of
  \<^verbatim>\<open>m49\<close> are read as integers and the offsets of \<^verbatim>\<open>m49Index\<close> as natural numbers.
  \<open>valueErrorLen\<close> is the length of the byte array \<^verbatim>\<open>v\<close> of the struct \<^verbatim>\<open>ValueError\<close>.
\<close>

record fromTo =
  fromID :: "16 word"
  toID :: "16 word"

record tables =
  lang :: Index
  altLangISO3 :: Index
  altLangIndex :: "16 word list"
  langNoIndex :: "byte list"
  langNoIndexOffset :: langID
  nonCanonicalUnd :: langID
  langAliasMap :: "fromTo list"
  langAliasTypes :: "langAliasType list"
  regionISO :: Index
  altRegionISO3 :: bytes
  altRegionIDs :: "16 word list"
  isoRegionOffset :: regionID
  m49 :: "int list"
  m49Index :: "nat list"
  fromM49 :: "16 word list"
  regionOldMap :: "fromTo list"
  script :: Index
  currency :: Index
  valueErrorLen :: nat

section \<open>lookup.go\<close>

definition findIndex :: "Index \<Rightarrow> bytes \<Rightarrow> bytes \<Rightarrow> error + nat" where
  "findIndex idx key form =
     (case FixCase form key of
        None \<Rightarrow> Inl errSyntax
      | Some key' \<Rightarrow>
          (case Index_Index idx key' of
             None \<Rightarrow> Inl (mkErrInvalid key')
           | Some i \<Rightarrow> Inr i))"

subsection \<open>Languages\<close>

definition normLang :: "tables \<Rightarrow> langID \<Rightarrow> error + langID \<times> langAliasType" where
  "normLang T l =
     (let k = Search (length (langAliasMap T)) (\<lambda>i. l \<le> fromID (langAliasMap T ! i))
      in if k < length (langAliasMap T) \<and> fromID (langAliasMap T ! k) = l then
           (case at (langAliasTypes T) k of
              None \<Rightarrow> Inl Panic
            | Some ty \<Rightarrow> Inr (toID (langAliasMap T ! k), ty))
         else Inr (l, langAliasTypeUnknown))"

definition getLangISO2 :: "tables \<Rightarrow> bytes \<Rightarrow> error + langID" where
  "getLangISO2 T s0 =
     (case FixCase (str ''zz'') s0 of
        None \<Rightarrow> Inl errSyntax
      | Some s \<Rightarrow>
          (case Index_Index (lang T) s of
             None \<Rightarrow> Inl (mkErrInvalid s)
           | Some i \<Rightarrow>
               (case Index_Elem (lang T) i of
                  Inl e \<Rightarrow> Inl e
                | Inr e \<Rightarrow> if e ! 3 \<noteq> 0 then Inr (of_nat i) else Inl (mkErrInvalid s))))"

text \<open>\<^verbatim>\<open>const base = 'z' - 'a' + 1\<close>; a Go \<^verbatim>\<open>uint\<close> is taken as 64 bits wide.\<close>

definition base :: "64 word" where
  "base = 26"

fun strToInt_loop :: "64 word \<Rightarrow> bytes \<Rightarrow> 64 word" where
  "strToInt_loop v [] = v"
| "strToInt_loop v (c # cs) = strToInt_loop (v * base + ucast (c - of_char (CHR ''a''))) cs"

definition strToInt :: "bytes \<Rightarrow> 64 word" where
  "strToInt s = strToInt_loop 0 s"

text \<open>\<open>intToStr v s\<close> is the contents of the buffer \<^verbatim>\<open>s\<close> after the call; the loop
  variable \<^verbatim>\<open>i\<close> of the source is the \<open>i\<close> of \<open>Suc i\<close>.\<close>

fun intToStr_loop :: "nat \<Rightarrow> 64 word \<Rightarrow> bytes \<Rightarrow> bytes" where
  "intToStr_loop 0 v s = s"
| "intToStr_loop (Suc i) v s =
     intToStr_loop i (v div base) (s[i := ucast (v mod base) + of_char (CHR ''a'')])"

definition intToStr :: "64 word \<Rightarrow> bytes \<Rightarrow> bytes" where
  "intToStr v s = intToStr_loop (length s) v s"

definition getLangISO3 :: "tables \<Rightarrow> bytes \<Rightarrow> error + langID" where
  "getLangISO3 T s0 =
     (case FixCase (str ''und'') s0 of
        None \<Rightarrow> Inl errSyntax
      | Some s \<Rightarrow>
          (case scan (lang T) (take 2 s) (\<lambda>e. e ! 3 = 0 \<and> e ! 2 = s ! 2)
                  (Index_Index (lang T) (take 2 s)) of
             Inl e \<Rightarrow> Inl e
           | Inr (Some i) \<Rightarrow> if of_nat i = nonCanonicalUnd T then Inr 0 else Inr (of_nat i)
           | Inr None \<Rightarrow>
               (case Index_Index (altLangISO3 T) s of
                  Some i \<Rightarrow>
                    (case Index_Elem (altLangISO3 T) i of
                       Inl e \<Rightarrow> Inl e
                     | Inr e \<Rightarrow>
                         (case at (altLangIndex T) (unat (e ! 3)) of
                            None \<Rightarrow> Inl Panic
                          | Some l \<Rightarrow> Inr l))
                | None \<Rightarrow>
                    (case at (langNoIndex T) (unat (strToInt s div 8)) of
                       None \<Rightarrow> Inl Panic
                     | Some b \<Rightarrow>
                         if b AND push_bit (unat (strToInt s mod 8)) 1 \<noteq> 0
                         then Inr (ucast (strToInt s) + langNoIndexOffset T)
                         else
                           (case scan (lang T) (take 1 s) (\<lambda>e. e ! 2 = s ! 1 \<and> e ! 3 = s ! 2)
                                   (Index_Index (lang T) (take 1 s)) of
                              Inl e \<Rightarrow> Inl e
                            | Inr (Some i) \<Rightarrow> Inr (of_nat i)
                            | Inr None \<Rightarrow> Inl (mkErrInvalid s))))))"

definition getLangID :: "tables \<Rightarrow> bytes \<Rightarrow> error + langID" where
  "getLangID T s = (if length s = 2 then getLangISO2 T s else getLangISO3 T s)"

text \<open>\<^verbatim>\<open>func (b langID) String() string\<close>; \<^verbatim>\<open>buf := [3]byte{}\<close> is three zero bytes.\<close>

definition langID_String :: "tables \<Rightarrow> langID \<Rightarrow> error + bytes" where
  "langID_String T b =
     (if b = 0 then Inr (str ''und'')
      else if langNoIndexOffset T \<le> b then
        Inr (intToStr (ucast (b - langNoIndexOffset T)) (replicate 3 0))
      else
        (case Index_Elem (lang T) (unat b) of
           Inl e \<Rightarrow> Inl e
         | Inr l \<Rightarrow> if l ! 3 = 0 then Inr (take 3 l) else Inr (take 2 l)))"

subsection \<open>Regions\<close>

definition getRegionISO2 :: "tables \<Rightarrow> bytes \<Rightarrow> error + regionID" where
  "getRegionISO2 T s =
     (case findIndex (regionISO T) s (str ''ZZ'') of
        Inl err \<Rightarrow> Inl err
      | Inr i \<Rightarrow> Inr (of_nat i + isoRegionOffset T))"

text \<open>The second loop of \<^verbatim>\<open>getRegionISO3\<close>:
  \<^verbatim>\<open>for i := 0; i < len(altRegionISO3); i += 3 { if tag.Compare(altRegionISO3[i:i+3], s) == 0 {
  return regionID(altRegionIDs[i/3]), nil } }\<close>.\<close>

function altRegion_loop :: "bytes \<Rightarrow> 16 word list \<Rightarrow> bytes \<Rightarrow> nat \<Rightarrow> error + regionID option" where
  "altRegion_loop alt ids s i =
     (if i < length alt then
        (if i + 3 \<le> length alt then
           (if Compare (take 3 (drop i alt)) s = 0 then
              (case at ids (i div 3) of None \<Rightarrow> Inl Panic | Some r \<Rightarrow> Inr (Some r))
            else altRegion_loop alt ids s (i + 3))
         else Inl Panic)
      else Inr None)"
  by pat_completeness auto
termination
  by (relation "measure (\<lambda>(alt, ids, s, i). length alt - i)") auto

declare altRegion_loop.simps [simp del]

definition getRegionISO3 :: "tables \<Rightarrow> bytes \<Rightarrow> error + regionID" where
  "getRegionISO3 T s0 =
     (case FixCase (str ''ZZZ'') s0 of
        None \<Rightarrow> Inl errSyntax
      | Some s \<Rightarrow>
          (case scan (regionISO T) (take 1 s) (\<lambda>e. e ! 2 = s ! 1 \<and> e ! 3 = s ! 2)
                  (Index_Index (regionISO T) (take 1 s)) of
             Inl e \<Rightarrow> Inl e
           | Inr (Some i) \<Rightarrow> Inr (of_nat i + isoRegionOffset T)
           | Inr None \<Rightarrow>
               (case altRegion_loop (altRegionISO3 T) (altRegionIDs T) s 0 of
                  Inl e \<Rightarrow> Inl e
                | Inr (Some r) \<Rightarrow> Inr r
                | Inr None \<Rightarrow> Inl (mkErrInvalid s))))"

text \<open>The block \<^verbatim>\<open>if 0 < n && n <= 999 { ... }\<close> of \<^verbatim>\<open>getRegionM49\<close>, with
  \<^verbatim>\<open>searchBits = 7\<close>, \<^verbatim>\<open>regionBits = 9\<close> and \<^verbatim>\<open>regionMask = 1<<regionBits - 1\<close>:
  \<open>Inr (Some r)\<close> when it returns the region \<open>r\<close>, \<open>Inr None\<close> when control leaves it.\<close>

definition regionMask :: "16 word" where
  "regionMask = 511"

definition m49_lookup :: "tables \<Rightarrow> int \<Rightarrow> error + regionID option" where
  "m49_lookup T n =
     (if 0 < n \<and> n \<le> 999 then
        (case (at (m49Index T) (nat n div 2 ^ 7), at (m49Index T) (nat n div 2 ^ 7 + 1)) of
           (Some lo, Some hi) \<Rightarrow>
             if lo \<le> hi \<and> hi \<le> length (fromM49 T) then
               (let buf = take (hi - lo) (drop lo (fromM49 T));
                    val = push_bit 9 (of_int n :: 16 word);
                    i = Search (length buf) (\<lambda>i. val \<le> buf ! i)
                in (case at (fromM49 T) (lo + i) of
                      None \<Rightarrow> Inl Panic
                    | Some r \<Rightarrow>
                        if r AND NOT regionMask = val then Inr (Some (r AND regionMask))
                        else Inr None))
             else Inl Panic
         | _ \<Rightarrow> Inl Panic)
      else Inr None)"

text \<open>The end of \<^verbatim>\<open>getRegionM49\<close>:
  \<^verbatim>\<open>var e ValueError; fmt.Fprint(bytes.NewBuffer([]byte(e.v[:])), n); return 0, e\<close>.
  The array \<^verbatim>\<open>e.v\<close> is a fresh zeroed array, \<^verbatim>\<open>e.v[:]\<close> the slice of the whole of it (the
  conversion to \<^verbatim>\<open>[]byte\<close> of a \<^verbatim>\<open>[]byte\<close> is the same slice), and the error returned holds
  what the array holds after the call of \<^verbatim>\<open>Fprint\<close>.\<close>

definition getRegionM49 :: "tables \<Rightarrow> int \<Rightarrow> error + regionID" where
  "getRegionM49 T n =
     (case m49_lookup T n of
        Inl e \<Rightarrow> Inl e
      | Inr (Some r) \<Rightarrow> Inr r
      | Inr None \<Rightarrow>
          (let (h1, e_v) = new_array empty_heap (valueErrorLen T);
               (h2, w) = Fprint h1 (NewBuffer (whole_slice e_v (valueErrorLen T))) n
           in Inl (ValueError (mem h2 e_v))))"

definition getRegionID :: "tables \<Rightarrow> bytes \<Rightarrow> error + regionID" where
  "getRegionID T s =
     (if length s = 3 then
        (if isAlpha (s ! 0) then getRegionISO3 T s
         else (case ParseUint s of
                 Some i \<Rightarrow> getRegionM49 T (int i)
               | None \<Rightarrow> getRegionISO2 T s))
      else getRegionISO2 T s)"

definition normRegion :: "tables \<Rightarrow> regionID \<Rightarrow> regionID" where
  "normRegion T r =
     (let m = regionOldMap T;
          k = Search (length m) (\<lambda>i. r \<le> fromID (m ! i))
      in if k < length m \<and> fromID (m ! k) = r then toID (m ! k) else 0)"

definition M49 :: "tables \<Rightarrow> regionID \<Rightarrow> error + int" where
  "M49 T r = (case at (m49 T) (unat r) of None \<Rightarrow> Inl Panic | Some n \<Rightarrow> Inr n)"

definition regionID_String :: "tables \<Rightarrow> regionID \<Rightarrow> error + bytes" where
  "regionID_String T r =
     (if r < isoRegionOffset T then
        (if r = 0 then Inr (str ''ZZ'')
         else (case M49 T r of Inl e \<Rightarrow> Inl e | Inr n \<Rightarrow> Inr (Sprintf_03d n)))
      else
        (case Index_Elem (regionISO T) (unat (r - isoRegionOffset T)) of
           Inl e \<Rightarrow> Inl e
         | Inr e \<Rightarrow> Inr (take 2 e)))"

subsection \<open>Scripts and currencies\<close>

text \<open>\<^verbatim>\<open>i, err := findIndex(idx, s, "Zzzz"); return scriptID(i), err\<close>: the identifier counts
  only when \<^verbatim>\<open>err\<close> is nil.\<close>

definition getScriptID :: "Index \<Rightarrow> bytes \<Rightarrow> error + scriptID" where
  "getScriptID idx s =
     (case findIndex idx s (str ''Zzzz'') of Inl err \<Rightarrow> Inl err | Inr i \<Rightarrow> Inr (of_nat i))"

definition scriptID_String :: "tables \<Rightarrow> scriptID \<Rightarrow> error + bytes" where
  "scriptID_String T s = (if s = 0 then Inr (str ''Zzzz'') else Index_Elem (script T) (unat s))"

definition getCurrencyID :: "Index \<Rightarrow> bytes \<Rightarrow> error + currencyID" where
  "getCurrencyID idx s =
     (case findIndex idx s (str ''XXX'') of Inl err \<Rightarrow> Inl err | Inr i \<Rightarrow> Inr (of_nat i))"

definition currencyID_String :: "tables \<Rightarrow> currencyID \<Rightarrow> error + bytes" where
  "currencyID_String T c =
     (if c = 0 then Inr (str ''XXX'')
      else (case Index_Elem (currency T) (unat c) of Inl e \<Rightarrow> Inl e | Inr e \<Rightarrow> Inr (take 3 e)))"

subsection \<open>Grandfathered tags\<close>

text \<open>
  The language constants of tables.go that \<^verbatim>\<open>grandfatheredMap\<close> names (\<^verbatim>\<open>_jbo\<close> is
  \<open>id_jbo\<close>), as values of the map's type \<^verbatim>\<open>int16\<close>.
\<close>

record langConsts =
  id_jbo :: "16 word"
  id_ami :: "16 word"
  id_bnn :: "16 word"
  id_hak :: "16 word"
  id_tlh :: "16 word"
  id_lb :: "16 word"
  id_nv :: "16 word"
  id_pwn :: "16 word"
  id_tao :: "16 word"
  id_tay :: "16 word"
  id_tsu :: "16 word"
  id_nb :: "16 word"
  id_nn :: "16 word"
  id_sfb :: "16 word"
  id_vgt :: "16 word"
  id_sgg :: "16 word"
  id_cmn :: "16 word"
  id_nan :: "16 word"
  id_hsn :: "16 word"

text \<open>
  Modelled from the spec: the struct \<^verbatim>\<open>Tag\<close> is declared outside lookup.go, which only
  sets its field \<^verbatim>\<open>lang\<close> (here \<open>tag_lang\<close>). The spec has a tag made of a language, a
  script and a region identifier; the zero \<^verbatim>\<open>Tag\<close>, the initial value of the result
  \<^verbatim>\<open>t\<close>, has each of them 0. The tag constructor \<^verbatim>\<open>Make\<close> is a parameter of
  \<open>grandfathered\<close>.
\<close>

record Tag =
  tag_lang :: langID
  tag_script :: scriptID
  tag_region :: regionID

definition zeroTag :: Tag where
  "zeroTag = \<lparr>tag_lang = 0, tag_script = 0, tag_region = 0\<rparr>"

definition grandfatheredMap :: "langConsts \<Rightarrow> (bytes \<times> 16 word) list" where
  "grandfatheredMap C =
     [(str ''art-lojban'', id_jbo C),
      (str ''i-ami'', id_ami C),
      (str ''i-bnn'', id_bnn C),
      (str ''i-hak'', id_hak C),
      (str ''i-klingon'', id_tlh C),
      (str ''i-lux'', id_lb C),
      (str ''i-navajo'', id_nv C),
      (str ''i-pwn'', id_pwn C),
      (str ''i-tao'', id_tao C),
      (str ''i-tay'', id_tay C),
      (str ''i-tsu'', id_tsu C),
      (str ''no-bok'', id_nb C),
      (str ''no-nyn'', id_nn C),
      (str ''sgn-BE-FR'', id_sfb C),
      (str ''sgn-BE-NL'', id_vgt C),
      (str ''sgn-CH-DE'', id_sgg C),
      (str ''zh-guoyu'', id_cmn C),
      (str ''zh-hakka'', id_hak C),
      (str ''zh-min-nan'', id_nan C),
      (str ''zh-xiang'', id_hsn C),
      (str ''cel-gaulish'', - 1),
      (str ''en-GB-oed'', - 2),
      (str ''i-default'', - 3),
      (str ''i-enochian'', - 4),
      (str ''i-mingo'', - 5),
      (str ''zh-min'', - 6),
      (str ''root'', 0)]"

definition altTagIndex :: "byte list" where
  "altTagIndex = [0, 17, 28, 42, 58, 71, 83]"

definition altTags :: bytes where
  "altTags = str ''xtg-x-cel-gaulishen-GB-x-oeden-x-i-defaultund-x-i-enochiansee-x-i-mingonan-x-zh-min''"

text \<open>The map's values are signed: \<^verbatim>\<open>v < 0\<close> reads the top bit, and \<^verbatim>\<open>-v-1\<close>, \<^verbatim>\<open>-v\<close> are
  computed in \<^verbatim>\<open>int16\<close> and index \<^verbatim>\<open>altTagIndex\<close> as signed numbers.\<close>

definition grandfathered :: "langConsts \<Rightarrow> (bytes \<Rightarrow> Tag) \<Rightarrow> bytes \<Rightarrow> error + Tag \<times> bool" where
  "grandfathered C Make s =
     (case map_of (grandfatheredMap C) s of
        Some v \<Rightarrow>
          if sint v < 0 then
            (if 0 \<le> sint (- v - 1) \<and> 0 \<le> sint (- v) then
               (case (at altTagIndex (nat (sint (- v - 1))), at altTagIndex (nat (sint (- v)))) of
                  (Some lo, Some hi) \<Rightarrow>
                    if unat lo \<le> unat hi \<and> unat hi \<le> length altTags
                    then Inr (Make (take (unat hi - unat lo) (drop (unat lo) altTags)), True)
                    else Inl Panic
                | _ \<Rightarrow> Inl Panic)
             else Inl Panic)
          else Inr (zeroTag\<lparr>tag_lang := v\<rparr>, True)
      | None \<Rightarrow> Inr (zeroTag, False))"

section \<open>Well-formed tables and a sample registry\<close>

text \<open>
  The records of an \<^verbatim>\<open>Index\<close>, and the code a record of \<^verbatim>\<open>lang\<close> stands for: its first
  three bytes when the fourth is 0, and its first two otherwise. The generator sorts
  \<^verbatim>\<open>lang\<close> by code and \<^verbatim>\<open>regionISO\<close> by its two-letter codes.
\<close>

definition Index_records :: "Index \<Rightarrow> bytes list" where
  "Index_records s = map (\<lambda>i. take 4 (drop (i * 4) s)) [0..<length s div 4]"

definition langCode :: "bytes \<Rightarrow> bytes" where
  "langCode e = (if e ! 3 = 0 then take 3 e else take 2 e)"

definition lang_sorted :: "tables \<Rightarrow> bool" where
  "lang_sorted T = sorted_wrt (<) (map langCode (Index_records (lang T)))"

definition region_sorted :: "tables \<Rightarrow> bool" where
  "region_sorted T = sorted_wrt (<) (map (take 2) (Index_records (regionISO T)))"

text \<open>An \<^verbatim>\<open>Index\<close> whose keys of \<open>n\<close> bytes increase strictly, as the generator sorts
  \<^verbatim>\<open>script\<close> (by 4 bytes) and \<^verbatim>\<open>currency\<close> (by 3 bytes).\<close>

definition Index_sorted :: "nat \<Rightarrow> Index \<Rightarrow> bool" where
  "Index_sorted n s = sorted_wrt (<) (map (take n) (Index_records s))"

definition alias_sorted :: "fromTo list \<Rightarrow> bool" where
  "alias_sorted m = sorted_wrt (\<lambda>a b. fromID a < fromID b) m"

text \<open>
  Table-backed identifiers: a language identifier below \<^verbatim>\<open>langNoIndexOffset\<close>, other than
  0, whose slot of \<^verbatim>\<open>lang\<close> holds a code of lower-case letters; a region identifier from
  \<^verbatim>\<open>isoRegionOffset\<close> on whose slot of \<^verbatim>\<open>regionISO\<close> holds a code of two upper-case letters.
\<close>

definition lang_slot :: "tables \<Rightarrow> langID \<Rightarrow> bool" where
  "lang_slot T b =
     (b \<noteq> 0 \<and> b < langNoIndexOffset T \<and> unat b < length (lang T) div 4
      \<and> list_all isLower (langCode (take 4 (drop (unat b * 4) (lang T)))))"

definition region_slot :: "tables \<Rightarrow> regionID \<Rightarrow> bool" where
  "region_slot T r =
     (isoRegionOffset T \<le> r \<and> unat (r - isoRegionOffset T) < length (regionISO T) div 4
      \<and> list_all isUpper
           (take 2 (take 4 (drop (unat (r - isoRegionOffset T) * 4) (regionISO T)))))"

text \<open>A registry of a few entries in the layout of the generated tables: slot 0 of
  \<^verbatim>\<open>lang\<close>, \<^verbatim>\<open>script\<close> and \<^verbatim>\<open>currency\<close> is a placeholder, every \<^verbatim>\<open>Index\<close> ends in a record
  of 0xFF bytes, region 1 is the numeric-only region 001, and the regions from
  \<^verbatim>\<open>isoRegionOffset = 2\<close> on are the records of \<^verbatim>\<open>regionISO\<close> (BU is 2, DD 3, DE 4, KY 5,
  MM 6, US 7, ZZ 8). The languages are aa 1, cmn 2, de 3, en 4, haw 5, he 6, und 7, zh 8.\<close>

definition sampleTables :: tables where
  "sampleTables = \<lparr>
     lang = str ''---'' @ [0] @ str ''aaar'' @ str ''cmn'' @ [0] @ str ''deeu'' @ str ''enng''
            @ str ''haw'' @ [0] @ str ''heeb'' @ str ''und'' @ [0] @ str ''zhho''
            @ [0xFF, 0xFF, 0xFF, 0xFF],
     altLangISO3 = str ''ger'' @ [0] @ [0xFF, 0xFF, 0xFF, 0xFF],
     altLangIndex = [3],
     langNoIndex = replicate 2197 0,
     langNoIndexOffset = 10,
     nonCanonicalUnd = 7,
     langAliasMap = [\<lparr>fromID = 2, toID = 8\<rparr>],
     langAliasTypes = [langMacro],
     regionISO = str ''BUUR'' @ str ''DDDR'' @ str ''DEEU'' @ str ''KY'' @ [0, 0] @ str ''MMMR''
            @ str ''USSA'' @ str ''ZZZZ'' @ [0xFF, 0xFF, 0xFF, 0xFF],
     altRegionISO3 = str ''CYM'',
     altRegionIDs = [5],
     isoRegionOffset = 2,
     m49 = [0, 1, 104, 278, 276, 136, 104, 840, 999],
     m49Index = [0, 2, 3, 5, 5, 5, 5, 6, 7],
     fromM49 = [513, 53254, 4101, 10244, 11267, 36871, 52744],
     regionOldMap = [\<lparr>fromID = 2, toID = 6\<rparr>, \<lparr>fromID = 3, toID = 4\<rparr>],
     script = str ''----'' @ str ''Latn'' @ str ''Zzzz'' @ [0xFF, 0xFF, 0xFF, 0xFF],
     currency = [0, 0, 0, 0] @ str ''EUR'' @ [2] @ str ''USD'' @ [2] @ str ''XXX'' @ [0]
            @ [0xFF, 0xFF, 0xFF, 0xFF],
     valueErrorLen = 8\<rparr>"

section \<open>sort.Search: properties\<close>

lemma Search_loop_spec:
  "(\<forall>a b. a \<le> b \<and> b < n \<and> f a \<longrightarrow> f b) \<Longrightarrow> i \<le> j \<Longrightarrow> j \<le> n \<Longrightarrow> (\<forall>k<i. \<not> f k) \<Longrightarrow> (j < n \<longrightarrow> f j) \<Longrightarrow>
         i \<le> Search_loop f i j \<and> Search_loop f i j \<le> j
         \<and> (\<forall>k<Search_loop f i j. \<not> f k)
         \<and> (Search_loop f i j < n \<longrightarrow> f (Search_loop f i j))"
proof (induction f i j rule: Search_loop.induct)
  case (1 f i j)
  note mono = "1.prems"(1)
  show ?case
  proof (cases "i < j")
    case False
    then have "Search_loop f i j = i"
      using Search_loop.simps [of f i j] by simp
    with False "1.prems"(2-) show ?thesis by simp
  next
    case True
    define h where "h = (i + j) div 2"
    have h: "i \<le> h" "h < j" using True by (simp_all add: h_def)
    show ?thesis
    proof (cases "f h")
      case fh: True
      have eq: "Search_loop f i j = Search_loop f i h"
        using True fh Search_loop.simps [of f i j] by (simp add: h_def)
      have nn: "\<not> \<not> f ((i + j) div 2)" using fh by (simp add: h_def)
      have p2: "i \<le> (i + j) div 2" using h by (simp add: h_def)
      have p3: "(i + j) div 2 \<le> n" using h "1.prems"(3) by (simp add: h_def)
      have p5: "(i + j) div 2 < n \<longrightarrow> f ((i + j) div 2)" using fh by (simp add: h_def)
      note IH = "1.IH"(2) [OF True nn mono p2 p3 "1.prems"(4) p5, folded h_def]
      from IH h show ?thesis unfolding eq by auto
    next
      case nfh: False
      have eq: "Search_loop f i j = Search_loop f (h + 1) j"
        using True nfh Search_loop.simps [of f i j] by (simp add: h_def)
      have hn: "h < n" using h "1.prems"(3) by simp
      have below: "\<forall>k<(i + j) div 2 + 1. \<not> f k"
      proof (intro allI impI)
        fix k assume "k < (i + j) div 2 + 1"
        then have "k \<le> h" by (simp add: h_def)
        then show "\<not> f k" using mono hn nfh by blast
      qed
      have n1: "\<not> f ((i + j) div 2)" using nfh by (simp add: h_def)
      have p2: "(i + j) div 2 + 1 \<le> j" using h by (simp add: h_def)
      note IH = "1.IH"(1) [OF True n1 mono p2 "1.prems"(3) below "1.prems"(5), folded h_def]
      from IH h show ?thesis unfolding eq by auto
    qed
  qed
qed

lemma Search_spec:
  assumes "\<And>a b. a \<le> b \<Longrightarrow> b < n \<Longrightarrow> f a \<Longrightarrow> f b"
  shows "Search n f \<le> n" and "\<And>k. k < Search n f \<Longrightarrow> \<not> f k"
    and "Search n f < n \<Longrightarrow> f (Search n f)"
proof -
  have m: "\<forall>a b. a \<le> b \<and> b < n \<and> f a \<longrightarrow> f b" using assms by blast
  have z: "\<forall>k<(0::nat). \<not> f k" by simp
  note S = Search_loop_spec [OF m le0 order_refl z, folded Search_def]
  show "Search n f \<le> n" using S by simp
  show "\<And>k. k < Search n f \<Longrightarrow> \<not> f k" using S by simp
  show "Search n f < n \<Longrightarrow> f (Search n f)" using S by simp
qed

text \<open>The search finds the entry of a key in an alias table sorted by \<^verbatim>\<open>from\<close>.\<close>

lemma alias_search:
  assumes srt: "alias_sorted m" and e: "e \<in> set m" "fromID e = r"
  defines "k \<equiv> Search (length m) (\<lambda>i. r \<le> fromID (m ! i))"
  shows "k < length m \<and> m ! k = e"
proof -
  from e obtain p where p: "p < length m" "m ! p = e" by (auto simp: in_set_conv_nth)
  have lt: "\<And>a b. a < b \<Longrightarrow> b < length m \<Longrightarrow> fromID (m ! a) < fromID (m ! b)"
    using srt by (simp add: alias_sorted_def sorted_wrt_iff_nth_less)
  have mono: "\<And>a b. a \<le> b \<Longrightarrow> b < length m \<Longrightarrow> r \<le> fromID (m ! a) \<Longrightarrow> r \<le> fromID (m ! b)"
  proof -
    fix a b assume "a \<le> b" "b < length m" "r \<le> fromID (m ! a)"
    then show "r \<le> fromID (m ! b)"
      using lt [of a b] by (cases "a = b") (auto simp: le_less)
  qed
  note S = Search_spec [where n = "length m" and f = "\<lambda>i. r \<le> fromID (m ! i)", OF mono, folded k_def]
  have "\<not> p < k" using S(2) [where k = p] p e by auto
  then have kp: "k \<le> p" by simp
  then have kl: "k < length m" using p by simp
  have "r \<le> fromID (m ! k)" using S(3) kl by simp
  moreover have "fromID (m ! k) \<le> r"
    using lt [of k p] kp p e by (cases "k = p") (auto simp: le_less)
  ultimately have "fromID (m ! k) = fromID (m ! p)" using p e by simp
  then have "k = p" using lt [of k p] lt [of p k] kp p kl by (cases "k = p") auto
  with p kl show ?thesis by simp
qed

section \<open>The base-26 packer: properties\<close>

text \<open>One step of \<open>strToInt\<close> on a lower-case letter, read as numbers, and its inverse by
  \<^verbatim>\<open>v % base\<close> and \<^verbatim>\<open>v / base\<close>.\<close>

lemma digit_unat:
  assumes "isLower c"
  shows "unat (c - of_char (CHR ''a'')) = unat c - 97" and "97 \<le> unat c" and "unat c \<le> 122"
  using assms unfolding isLower_def
  by (simp_all add: word_le_nat_alt unat_sub)

lemma ucast_byte_unat:
  fixes d :: byte
  shows "unat (ucast d :: 64 word) = unat d"
  by (simp add: unsigned_ucast_eq take_bit_nat_eq_self_iff order_less_trans [OF unsigned_less])

lemma step_unat:
  fixes q :: "64 word" and c :: byte
  assumes "unat q < 2 ^ 32" "isLower c"
  shows "unat (q * base + ucast (c - of_char (CHR ''a''))) = unat q * 26 + (unat c - 97)"
proof -
  have d: "unat (ucast (c - of_char (CHR ''a'')) :: 64 word) = unat c - 97"
    using digit_unat(1) [OF assms(2)] by (simp add: ucast_byte_unat)
  have m: "unat (q * base) = unat q * 26"
    using assms(1) by (simp add: base_def unat_word_ariths)
  show ?thesis
    using assms(1) digit_unat [OF assms(2)] d m by (simp add: unat_word_ariths)
qed

lemma unstep:
  fixes q :: "64 word" and c :: byte
  assumes "unat q < 2 ^ 32" "isLower c"
  defines "v \<equiv> q * base + ucast (c - of_char (CHR ''a''))"
  shows "v div base = q" and "ucast (v mod base) + of_char (CHR ''a'') = c"
proof -
  have u: "unat v = unat q * 26 + (unat c - 97)"
    unfolding v_def by (rule step_unat [OF assms(1,2)])
  have r: "unat c - 97 < 26" using digit_unat [OF assms(2)] by simp
  have "unat (v div base) = unat q"
    using u r by (simp add: unat_div base_def)
  then show "v div base = q" by (simp add: word_unat_eq_iff)
  have "unat (v mod base) = unat c - 97"
    using u r by (simp add: unat_mod base_def)
  then have "unat (ucast (v mod base) :: byte) = unat c - 97"
    using r by (simp add: unsigned_ucast_eq take_bit_nat_eq_self_iff)
  then have "unat (ucast (v mod base) + of_char (CHR ''a'') :: byte) = unat c"
    using digit_unat [OF assms(2)] r by (simp add: unat_word_ariths)
  then show "ucast (v mod base) + of_char (CHR ''a'') = c" by (simp add: word_unat_eq_iff)
qed

lemma strToInt_loop_snoc:
  "strToInt_loop v (s @ [c]) = strToInt_loop v s * base + ucast (c - of_char (CHR ''a''))"
  by (induction s arbitrary: v) simp_all

lemma strToInt_loop_bound:
  "list_all isLower s \<Longrightarrow> length s \<le> 6 \<Longrightarrow> unat (strToInt_loop 0 s) < 26 ^ length s"
proof (induction s rule: rev_induct)
  case Nil
  then show ?case by simp
next
  case (snoc c s)
  then have q: "unat (strToInt_loop 0 s) < 26 ^ length s" and c: "isLower c" and l: "length s \<le> 5"
    by simp_all
  have "(26::nat) ^ length s \<le> 26 ^ 5" using l by (intro power_increasing) simp_all
  then have q32: "unat (strToInt_loop 0 s) < 2 ^ 32" using q by simp
  have "unat (strToInt_loop 0 (s @ [c])) = unat (strToInt_loop 0 s) * 26 + (unat c - 97)"
    unfolding strToInt_loop_snoc by (rule step_unat [OF q32 c])
  moreover have "unat c - 97 < 26" using digit_unat [OF c] by simp
  ultimately show ?case using q by simp
qed

lemma intToStr_loop_strToInt_loop:
  "list_all isLower s \<Longrightarrow> length s \<le> 6 \<Longrightarrow> length s \<le> length buf \<Longrightarrow>
   intToStr_loop (length s) (strToInt_loop 0 s) buf = s @ drop (length s) buf"
proof (induction s arbitrary: buf rule: rev_induct)
  case Nil
  then show ?case by simp
next
  case (snoc c s)
  then have c: "isLower c" and low: "list_all isLower s" and l: "length s \<le> 5"
    and b: "length s < length buf"
    by simp_all
  have "(26::nat) ^ length s \<le> 26 ^ 5" using l by (intro power_increasing) simp_all
  then have q32: "unat (strToInt_loop 0 s) < 2 ^ 32"
    using strToInt_loop_bound [OF low] l by simp
  have "intToStr_loop (length (s @ [c])) (strToInt_loop 0 (s @ [c])) buf
        = intToStr_loop (length s) (strToInt_loop 0 s) (buf[length s := c])"
    unfolding strToInt_loop_snoc using unstep [OF q32 c] by simp
  also have "\<dots> = s @ drop (length s) (buf[length s := c])"
    using snoc.IH [of "buf[length s := c]"] low l b by simp
  also have "\<dots> = (s @ [c]) @ drop (length (s @ [c])) buf"
    using b by (simp add: drop_update_cancel Cons_nth_drop_Suc [symmetric] upd_conv_take_nth_drop)
  finally show ?case .
qed

text \<open>
  C5: for every string \<open>s\<close> of three lower-case letters, \<open>intToStr\<close> of the packed
  integer of \<open>s\<close>, into any 3-byte buffer, leaves \<open>s\<close> in the buffer.
\<close>

theorem intToStr_strToInt:
  assumes "length s = 3" and "list_all isLower s" and "length buf = 3"
  shows "intToStr (strToInt s) buf = s"
  using intToStr_loop_strToInt_loop [of s buf] assms
  by (simp add: intToStr_def strToInt_def)

theorem intToStr_strToInt_witness:
  "length (str ''und'') = 3 \<and> list_all isLower (str ''und'') \<and> length (replicate 3 (0::byte)) = 3
   \<and> intToStr (strToInt (str ''und'')) (replicate 3 0) = str ''und''"
proof -
  have l: "length (str ''und'') = 3" by (simp add: str_def)
  have a: "list_all isLower (str ''und'')" by (simp add: str_def isLower_def)
  have b: "length (replicate 3 (0::byte)) = 3" by simp
  show ?thesis using intToStr_strToInt [OF l a b] l a b by simp
qed

section \<open>Alias tables: properties\<close>

text \<open>
  C1 (as the code has it): in a table sorted by \<^verbatim>\<open>from\<close>, \<open>normRegion\<close> returns 0 for a
  region with no alias entry (not the region itself), and for a region with an entry it
  returns that entry's replacement.
\<close>

theorem normRegion_alias_table:
  assumes "alias_sorted (regionOldMap T)"
  shows "(r \<notin> fromID ` set (regionOldMap T) \<longrightarrow> normRegion T r = 0)
       \<and> (\<forall>e \<in> set (regionOldMap T). fromID e = r \<longrightarrow> normRegion T r = toID e)"
proof (intro conjI impI ballI)
  assume none: "r \<notin> fromID ` set (regionOldMap T)"
  have "\<And>k. k < length (regionOldMap T) \<Longrightarrow> fromID (regionOldMap T ! k) \<noteq> r"
    using none nth_mem by fastforce
  then show "normRegion T r = 0"
    by (auto simp: normRegion_def Let_def)
next
  fix e assume "e \<in> set (regionOldMap T)" "fromID e = r"
  from alias_search [OF assms this] show "normRegion T r = toID e"
    using \<open>fromID e = r\<close> by (simp add: normRegion_def Let_def)
qed

theorem normRegion_alias_table_witness:
  "alias_sorted (regionOldMap sampleTables)
   \<and> 4 \<notin> fromID ` set (regionOldMap sampleTables) \<and> normRegion sampleTables 4 = 0
   \<and> \<lparr>fromID = 2, toID = 6\<rparr> \<in> set (regionOldMap sampleTables) \<and> normRegion sampleTables 2 = 6"
proof -
  have s: "alias_sorted (regionOldMap sampleTables)"
    by (simp add: sampleTables_def alias_sorted_def)
  have n: "4 \<notin> fromID ` set (regionOldMap sampleTables)"
    by (simp add: sampleTables_def)
  have m: "\<lparr>fromID = 2, toID = 6\<rparr> \<in> set (regionOldMap sampleTables)"
    by (simp add: sampleTables_def)
  show ?thesis
    using normRegion_alias_table [OF s, of 4] normRegion_alias_table [OF s, of 2] s n m
    by auto
qed

text \<open>The claim as stated, that a region with no alias entry comes back unchanged, fails
  for region 4 of the sample registry, which has no entry: the result is 0.\<close>

theorem normRegion_no_entry_counterexample:
  "4 \<notin> fromID ` set (regionOldMap sampleTables) \<and> normRegion sampleTables 4 \<noteq> 4"
  by code_simp

text \<open>
  C7 (as the code has it): when no entry's \<^verbatim>\<open>to\<close> is some entry's \<^verbatim>\<open>from\<close>, applying
  \<open>normLang\<close> to the identifier it returned gives that identifier again, with the
  classification \<open>langAliasTypeUnknown\<close>.
\<close>

theorem normLang_second_application:
  assumes nochain: "toID ` set (langAliasMap T) \<inter> fromID ` set (langAliasMap T) = {}"
    and first: "normLang T l = Inr (l', k)"
  shows "normLang T l' = Inr (l', langAliasTypeUnknown)"
proof -
  let ?m = "langAliasMap T"
  let ?k = "Search (length ?m) (\<lambda>i. l \<le> fromID (?m ! i))"
  show ?thesis
  proof (cases "?k < length ?m \<and> fromID (?m ! ?k) = l")
    case True
    then have "l' = toID (?m ! ?k)"
      using first by (auto simp: normLang_def Let_def split: option.splits)
    then have "l' \<in> toID ` set ?m" using True by simp
    then have "l' \<notin> fromID ` set ?m" using nochain by blast
    then have "\<And>j. j < length ?m \<Longrightarrow> fromID (?m ! j) \<noteq> l'"
      using nth_mem by fastforce
    then show ?thesis by (auto simp: normLang_def Let_def)
  next
    case False
    then have "normLang T l = Inr (l, langAliasTypeUnknown)"
      by (auto simp: normLang_def Let_def)
    with first show ?thesis by simp
  qed
qed

theorem normLang_second_application_witness:
  "toID ` set (langAliasMap sampleTables) \<inter> fromID ` set (langAliasMap sampleTables) = {}
   \<and> normLang sampleTables 2 = Inr (8, langMacro)
   \<and> normLang sampleTables 8 = Inr (8, langAliasTypeUnknown)"
proof -
  have n: "toID ` set (langAliasMap sampleTables) \<inter> fromID ` set (langAliasMap sampleTables) = {}"
    by (simp add: sampleTables_def)
  have f: "normLang sampleTables 2 = Inr (8, langMacro)"
    by code_simp
  show ?thesis
    using normLang_second_application [OF n f] n f by simp
qed

text \<open>The claim as stated, that the second application also gives the classification of
  the first, fails for language 2 of the sample registry (an alias of kind \<open>langMacro\<close>
  for language 8).\<close>

theorem normLang_classification_counterexample:
  "toID ` set (langAliasMap sampleTables) \<inter> fromID ` set (langAliasMap sampleTables) = {}
   \<and> normLang sampleTables 2 = Inr (8, langMacro)
   \<and> normLang sampleTables 8 \<noteq> Inr (8, langMacro)"
proof -
  have n: "toID ` set (langAliasMap sampleTables) \<inter> fromID ` set (langAliasMap sampleTables) = {}"
    by (simp add: sampleTables_def)
  have f: "normLang sampleTables 2 = Inr (8, langMacro)"
    by code_simp
  have g: "normLang sampleTables 8 \<noteq> Inr (8, langMacro)"
    by code_simp
  show ?thesis using n f g by simp
qed

section \<open>Numeric regions: properties\<close>

text \<open>What \<^verbatim>\<open>Fprint\<close> writes is not empty, so it never fits a buffer that is full.\<close>

lemma decimal_nonempty: "decimal n \<noteq> []"
  by (subst decimal.simps) simp

lemma itoa_nonempty: "itoa n \<noteq> []"
  by (simp add: itoa_def decimal_nonempty)

lemma getRegionM49_failure:
  assumes "m49_lookup T n = Inr None"
  shows "getRegionM49 T n = Inl (ValueError (replicate (valueErrorLen T) 0))"
  using assms itoa_nonempty [of n]
  by (simp add: getRegionM49_def new_array_def empty_heap_def Fprint_def NewBuffer_def
      whole_slice_def Buffer_Write_def Let_def)

lemma ParseUint_000: "ParseUint (str ''000'') = Some 0"
  by (simp add: ParseUint_def str_def isDigit_def)

lemma isAlpha_0: "\<not> isAlpha (str ''000'' ! 0)"
  by (simp add: isAlpha_def isLetter_def isUpper_def isLower_def str_def)

text \<open>
  C2 (the code's behaviour): for the region number 0, that the input "000" parses to,
  and for 1000, \<open>getRegionM49\<close> returns a \<open>ValueError\<close> whose byte array is all zero: the
  digits of the number went to the buffer's fresh array, and none of them is in the
  error returned.
\<close>

theorem getRegionM49_payload_zero:
  "getRegionM49 T 0 = Inl (ValueError (replicate (valueErrorLen T) 0))
   \<and> getRegionID T (str ''000'') = Inl (ValueError (replicate (valueErrorLen T) 0))
   \<and> getRegionM49 T 1000 = Inl (ValueError (replicate (valueErrorLen T) 0))"
proof -
  have a: "getRegionM49 T 0 = Inl (ValueError (replicate (valueErrorLen T) 0))"
    by (rule getRegionM49_failure) (simp add: m49_lookup_def)
  have c: "getRegionM49 T 1000 = Inl (ValueError (replicate (valueErrorLen T) 0))"
    by (rule getRegionM49_failure) (simp add: m49_lookup_def)
  have b: "getRegionID T (str ''000'') = getRegionM49 T 0"
    using ParseUint_000 isAlpha_0 by (simp add: getRegionID_def str_def)
  show ?thesis using a b c by simp
qed

section \<open>Failure kinds of the region resolver\<close>

text \<open>What \<open>FixCase\<close> accepts, and the only failure of the table scans.\<close>

lemma FixCase_length: "FixCase form s = Some s' \<Longrightarrow> length s = length form \<and> length s' = length form"
  by (induction form s arbitrary: s' rule: FixCase.induct) (auto split: option.splits)

lemma FixCase_length_None: "length s \<noteq> length form \<Longrightarrow> FixCase form s = None"
  using FixCase_length [of form s] by (cases "FixCase form s") auto

lemma isDigit_not_isLetter: "isDigit c \<Longrightarrow> \<not> isLetter c"
  by (auto simp: isDigit_def isLetter_def isUpper_def isLower_def word_le_nat_alt)

lemma isUpper_not_isDigit: "isUpper c \<Longrightarrow> \<not> isDigit c"
  by (auto simp: isDigit_def isUpper_def word_le_nat_alt)

lemma isLower_not_isDigit: "isLower c \<Longrightarrow> \<not> isDigit c"
  by (auto simp: isDigit_def isLower_def word_le_nat_alt)

lemma isLower_not_isUpper: "isLower c \<Longrightarrow> \<not> isUpper c"
  by (auto simp: isUpper_def isLower_def word_le_nat_alt)

text \<open>Under a template of letters, \<open>FixCase\<close> accepts exactly the strings of letters of
  the template's length.\<close>

lemma FixCase_letters:
  "list_all isLetter form \<Longrightarrow> FixCase form s = Some s' \<Longrightarrow> list_all isLetter s"
proof (induction form s arbitrary: s' rule: FixCase.induct)
  case 1
  then show ?case by simp
next
  case (2 f fs c cs)
  then show ?case
    by (auto simp: fixByte_def isLetter_def isUpper_not_isDigit isLower_not_isDigit
        split: option.splits if_splits)
qed simp_all

lemma FixCase_upper:
  "list_all isUpper form \<Longrightarrow> length s = length form \<Longrightarrow> list_all isLetter s \<Longrightarrow>
   FixCase form s = Some (map toUpper s)"
proof (induction form s rule: FixCase.induct)
  case 1
  then show ?case by simp
next
  case (2 f fs c cs)
  then show ?case by (simp add: fixByte_def isUpper_not_isDigit)
qed simp_all

lemma ParseUint_loop_digits: "ParseUint_loop n s = Some m \<Longrightarrow> list_all isDigit s"
  by (induction n s rule: ParseUint_loop.induct) (auto split: if_splits)

lemma ParseUint_digits: "ParseUint s = Some m \<Longrightarrow> list_all isDigit s"
  using ParseUint_loop_digits [of 0 s] by (auto simp: ParseUint_def split: if_splits option.splits)

lemma Index_Elem_Inl: "Index_Elem idx i = Inl e \<Longrightarrow> e = Panic"
  by (auto simp: Index_Elem_def split: if_splits)

lemma scan_Inl: "scan idx key p io = Inl e \<Longrightarrow> e = Panic"
proof (induction idx key p io rule: scan.induct)
  case (1 idx key p)
  then show ?case by simp
next
  case (2 idx key p i)
  then show ?case
    by (auto split: sum.splits if_splits dest: Index_Elem_Inl)
qed

lemma altRegion_loop_Inl: "altRegion_loop alt ids s i = Inl e \<Longrightarrow> e = Panic"
proof (induction alt ids s i rule: altRegion_loop.induct)
  case (1 alt ids s i)
  show ?case
  proof (cases "i < length alt \<and> i + 3 \<le> length alt \<and> Compare (take 3 (drop i alt)) s \<noteq> 0")
    case True
    then have "altRegion_loop alt ids s i = altRegion_loop alt ids s (i + 3)"
      by (subst altRegion_loop.simps) simp
    with "1.prems" "1.IH" True show ?thesis by simp
  next
    case False
    with "1.prems" show ?thesis
      by (subst (asm) altRegion_loop.simps) (auto split: if_splits option.splits)
  qed
qed

lemma getRegionISO2_length: "length s \<noteq> 2 \<Longrightarrow> getRegionISO2 T s = Inl errSyntax"
  by (simp add: getRegionISO2_def findIndex_def FixCase_length_None str_def)

lemma str_ZZZ_upper: "list_all isUpper (str ''ZZZ'')" "list_all isLetter (str ''ZZZ'')" "length (str ''ZZZ'') = 3"
  by (simp_all add: str_def isUpper_def isLetter_def)

lemma getRegionISO3_letters:
  assumes "length s = 3" "list_all isLetter s"
  shows "case getRegionISO3 T s of Inl e \<Rightarrow> e = Panic \<or> e = mkErrInvalid (map toUpper s) | Inr r \<Rightarrow> True"
proof -
  have f: "FixCase (str ''ZZZ'') s = Some (map toUpper s)"
    using FixCase_upper [OF str_ZZZ_upper(1)] assms str_ZZZ_upper(3) by simp
  show ?thesis
    unfolding getRegionISO3_def f
    by (auto split: sum.splits option.splits dest: scan_Inl altRegion_loop_Inl)
qed

lemma getRegionISO3_nonletter:
  assumes "\<not> list_all isLetter s"
  shows "getRegionISO3 T s = Inl errSyntax"
proof -
  have "FixCase (str ''ZZZ'') s = None"
    using FixCase_letters [OF str_ZZZ_upper(2), of s] assms by (cases "FixCase (str ''ZZZ'') s") auto
  then show ?thesis by (simp add: getRegionISO3_def)
qed

text \<open>
  C9 (as the code has it): "000" fails with a value-range failure (a \<open>ValueError\<close>);
  every input longer than 3 bytes, "1000" among them, fails with a syntax failure; a
  3-byte input that is neither all digits nor all letters fails with a syntax failure
  too; and a 3-letter input, when it fails, fails with the invalid-subtag failure carrying
  the upper-cased input (or with a panic on malformed tables), never with a syntax or a
  value-range failure.
\<close>

theorem getRegionID_failure_kinds:
  "getRegionID T (str ''000'') = Inl (ValueError (replicate (valueErrorLen T) 0))
   \<and> (3 < length s \<longrightarrow> getRegionID T s = Inl errSyntax)
   \<and> (length s = 3 \<and> \<not> list_all isDigit s \<and> \<not> list_all isLetter s \<longrightarrow>
        getRegionID T s = Inl errSyntax)
   \<and> (length s = 3 \<and> list_all isLetter s \<longrightarrow>
        (case getRegionID T s of
           Inl e \<Rightarrow> e = Panic \<or> e = mkErrInvalid (map toUpper s)
         | Inr r \<Rightarrow> True))"
proof (intro conjI impI)
  have "getRegionID T (str ''000'') = getRegionM49 T 0"
    using ParseUint_000 isAlpha_0 by (simp add: getRegionID_def str_def)
  also have "\<dots> = Inl (ValueError (replicate (valueErrorLen T) 0))"
    by (rule getRegionM49_failure) (simp add: m49_lookup_def)
  finally show "getRegionID T (str ''000'') = Inl (ValueError (replicate (valueErrorLen T) 0))" .
next
  assume "3 < length s"
  then show "getRegionID T s = Inl errSyntax"
    by (simp add: getRegionID_def getRegionISO2_length)
next
  assume a: "length s = 3 \<and> \<not> list_all isDigit s \<and> \<not> list_all isLetter s"
  then have "ParseUint s = None" using ParseUint_digits [of s] by (cases "ParseUint s") auto
  with a show "getRegionID T s = Inl errSyntax"
    by (simp add: getRegionID_def getRegionISO2_length getRegionISO3_nonletter)
next
  assume a: "length s = 3 \<and> list_all isLetter s"
  then have "isAlpha (s ! 0)" by (cases s) (simp_all add: isAlpha_def)
  with a show "case getRegionID T s of
           Inl e \<Rightarrow> e = Panic \<or> e = mkErrInvalid (map toUpper s)
         | Inr r \<Rightarrow> True"
    using getRegionISO3_letters [of s T] by (simp add: getRegionID_def)
qed

theorem getRegionID_failure_kinds_witness:
  "3 < length (str ''1000'') \<and> getRegionID sampleTables (str ''1000'') = Inl errSyntax
   \<and> length (str ''1a2'') = 3 \<and> \<not> list_all isDigit (str ''1a2'') \<and> \<not> list_all isLetter (str ''1a2'')
   \<and> getRegionID sampleTables (str ''1a2'') = Inl errSyntax
   \<and> list_all isLetter (str ''abc'')
   \<and> getRegionID sampleTables (str ''abc'') = Inl (mkErrInvalid (str ''ABC''))"
proof -
  have a: "3 < length (str ''1000'')" by (simp add: str_def)
  have b: "length (str ''1a2'') = 3 \<and> \<not> list_all isDigit (str ''1a2'') \<and> \<not> list_all isLetter (str ''1a2'')"
    by (simp add: str_def isDigit_def isLetter_def isUpper_def isLower_def)
  have c: "list_all isLetter (str ''abc'')"
    by (simp add: str_def isLetter_def isUpper_def isLower_def)
  have d: "getRegionID sampleTables (str ''abc'') = Inl (mkErrInvalid (str ''ABC''))"
    by code_simp
  show ?thesis
    using getRegionID_failure_kinds [of sampleTables "str ''1000''"]
      getRegionID_failure_kinds [of sampleTables "str ''1a2''"] a b c d
    by simp
qed

text \<open>The claim as stated has the three inputs fail with three distinct kinds, syntax for
  "000" and value-range for "1000": on the code "000" is the value-range failure, and
  "1000" and the non-digit "1a2" both are syntax failures.\<close>

theorem getRegionID_failure_kinds_counterexample:
  "getRegionID sampleTables (str ''000'') = Inl (ValueError (replicate 8 0))
   \<and> getRegionID sampleTables (str ''1000'') = Inl errSyntax
   \<and> getRegionID sampleTables (str ''1a2'') = Inl errSyntax"
  by code_simp

section \<open>Case folding\<close>

text \<open>The resolvers read their input through \<open>FixCase\<close> (and, for regions, through
  \<open>isAlpha\<close> and \<open>ParseUint\<close>), which do not tell the case of a letter.\<close>

lemma toUpper_class:
  "isDigit (toUpper c) = isDigit c" "isLetter (toUpper c) = isLetter c"
  "toUpper (toUpper c) = toUpper c" "toLower (toUpper c) = toLower c"
  "isDigit c \<Longrightarrow> toUpper c = c"
  unfolding isDigit_def isLetter_def isUpper_def isLower_def toUpper_def toLower_def
  by (auto simp: word_le_nat_alt unat_sub unat_word_ariths word_unat_eq_iff)

lemma toLower_class:
  "isDigit (toLower c) = isDigit c" "isLetter (toLower c) = isLetter c"
  "toUpper (toLower c) = toUpper c" "toLower (toLower c) = toLower c"
  "isDigit c \<Longrightarrow> toLower c = c"
  unfolding isDigit_def isLetter_def isUpper_def isLower_def toUpper_def toLower_def
  by (auto simp: word_le_nat_alt unat_sub unat_word_ariths word_unat_eq_iff)

lemma fixByte_fold: "fixByte f (toUpper c) = fixByte f c" "fixByte f (toLower c) = fixByte f c"
  using toUpper_class(5) [of c] toLower_class(5) [of c]
  by (auto simp: fixByte_def toUpper_class(1-4) toLower_class(1-4))

lemma FixCase_fold:
  "FixCase form (map toUpper s) = FixCase form s" "FixCase form (map toLower s) = FixCase form s"
  by (induction form s rule: FixCase.induct) (auto simp: fixByte_fold split: option.splits)

lemma ParseUint_loop_fold:
  "ParseUint_loop n (map toUpper s) = ParseUint_loop n s"
  "ParseUint_loop n (map toLower s) = ParseUint_loop n s"
  by (induction n s rule: ParseUint_loop.induct)
     (simp_all add: toUpper_class(1,5) toLower_class(1,5))

lemma ParseUint_fold:
  "ParseUint (map toUpper s) = ParseUint s" "ParseUint (map toLower s) = ParseUint s"
  by (simp_all add: ParseUint_def ParseUint_loop_fold)

lemma getLangID_fold:
  "getLangID T (map toUpper s) = getLangID T s" "getLangID T (map toLower s) = getLangID T s"
  by (simp_all add: getLangID_def getLangISO2_def getLangISO3_def FixCase_fold)

lemma isAlpha_fold: "isAlpha (toUpper c) = isAlpha c" "isAlpha (toLower c) = isAlpha c"
  by (simp_all add: isAlpha_def toUpper_class(2) toLower_class(2))

lemma getRegionID_fold:
  "getRegionID T (map toUpper s) = getRegionID T s" "getRegionID T (map toLower s) = getRegionID T s"
  by (auto simp: getRegionID_def getRegionISO2_def getRegionISO3_def findIndex_def
      FixCase_fold ParseUint_fold isAlpha_fold split: option.splits)

lemma findIndex_fold:
  "findIndex idx (map toUpper s) form = findIndex idx s form"
  "findIndex idx (map toLower s) form = findIndex idx s form"
  by (simp_all add: findIndex_def FixCase_fold)

lemma FixCase_digit:
  assumes "list_all isLetter form" "list_ex isDigit s"
  shows "FixCase form s = None"
proof (cases "FixCase form s")
  case (Some s')
  then have "list_all isLetter s" using FixCase_letters [OF assms(1)] by simp
  with assms(2) show ?thesis
    by (auto simp: list_all_iff list_ex_iff dest: isDigit_not_isLetter)
qed simp

lemma templates_letters:
  "list_all isLetter (str ''zz'')" "list_all isLetter (str ''und'')" "list_all isLetter (str ''ZZ'')"
  "list_all isLetter (str ''Zzzz'')" "list_all isLetter (str ''XXX'')"
  by (simp_all add: str_def isLetter_def isUpper_def isLower_def)

text \<open>
  C6: for every input \<open>s\<close>, the language, region, script and currency resolvers return
  the same result on \<open>s\<close>, on \<open>s\<close> in upper case and on \<open>s\<close> in lower case; and an input
  with a digit is a syntax failure for the language, script and currency resolvers
  (whose templates are letters), and for the region resolver unless the input is three
  digits (the numeric form, which has no letter position).
\<close>

theorem resolve_case_insensitive:
  "getLangID T (map toUpper s) = getLangID T s \<and> getLangID T (map toLower s) = getLangID T s
   \<and> getRegionID T (map toUpper s) = getRegionID T s \<and> getRegionID T (map toLower s) = getRegionID T s
   \<and> getScriptID idx (map toUpper s) = getScriptID idx s
   \<and> getScriptID idx (map toLower s) = getScriptID idx s
   \<and> getCurrencyID idx (map toUpper s) = getCurrencyID idx s
   \<and> getCurrencyID idx (map toLower s) = getCurrencyID idx s
   \<and> (list_ex isDigit s \<longrightarrow>
        getLangID T s = Inl errSyntax \<and> getScriptID idx s = Inl errSyntax
        \<and> getCurrencyID idx s = Inl errSyntax
        \<and> (\<not> (length s = 3 \<and> list_all isDigit s) \<longrightarrow> getRegionID T s = Inl errSyntax))"
proof (intro conjI impI)
  assume d: "list_ex isDigit s"
  note F = FixCase_digit [OF _ d]
  show "getLangID T s = Inl errSyntax"
    by (simp add: getLangID_def getLangISO2_def getLangISO3_def F templates_letters)
  show "getScriptID idx s = Inl errSyntax"
    by (simp add: getScriptID_def findIndex_def F templates_letters)
  show "getCurrencyID idx s = Inl errSyntax"
    by (simp add: getCurrencyID_def findIndex_def F templates_letters)
  assume n: "\<not> (length s = 3 \<and> list_all isDigit s)"
  have l: "\<not> list_all isLetter s"
    using d by (auto simp: list_all_iff list_ex_iff dest: isDigit_not_isLetter)
  have p: "length s = 3 \<Longrightarrow> ParseUint s = None"
    using n ParseUint_digits [of s] by (cases "ParseUint s") auto
  have i2: "getRegionISO2 T s = Inl errSyntax"
    by (simp add: getRegionISO2_def findIndex_def F templates_letters)
  show "getRegionID T s = Inl errSyntax"
    using p by (simp add: getRegionID_def i2 getRegionISO3_nonletter [OF l])
qed (simp_all add: getLangID_fold getRegionID_fold getScriptID_def getCurrencyID_def findIndex_fold)

theorem resolve_case_insensitive_witness:
  "getLangID sampleTables (map toUpper (str ''eNg'')) = Inr 4
   \<and> getLangID sampleTables (str ''eNg'') = Inr 4
   \<and> list_ex isDigit (str ''e1'') \<and> getLangID sampleTables (str ''e1'') = Inl errSyntax
   \<and> \<not> (length (str ''e1'') = 3 \<and> list_all isDigit (str ''e1''))
   \<and> getRegionID sampleTables (str ''e1'') = Inl errSyntax"
proof -
  have a: "getLangID sampleTables (str ''eNg'') = Inr 4" by code_simp
  have d: "list_ex isDigit (str ''e1'')" by (simp add: str_def isDigit_def)
  have n: "\<not> (length (str ''e1'') = 3 \<and> list_all isDigit (str ''e1''))" by (simp add: str_def)
  show ?thesis
    using resolve_case_insensitive [of sampleTables "str ''eNg''" "script sampleTables"]
      resolve_case_insensitive [of sampleTables "str ''e1''" "script sampleTables"] a d n
    by simp
qed

section \<open>Index lookups: properties\<close>

text \<open>Prefixes in the lexicographic order.\<close>

lemma take_le_mono:
  fixes xs ys :: "'a::linorder list"
  shows "xs \<le> ys \<Longrightarrow> take n xs \<le> take n ys"
proof (induction n arbitrary: xs ys)
  case 0
  then show ?case by simp
next
  case (Suc n)
  show ?case
  proof (cases xs)
    case Nil
    then show ?thesis by simp
  next
    case (Cons x xs')
    then obtain y ys' where ys: "ys = y # ys'" using Suc.prems by (cases ys) auto
    from Suc.prems Cons ys have "x < y \<or> x = y \<and> xs' \<le> ys'" by simp
    then show ?thesis using Suc.IH [of xs' ys'] Cons ys by auto
  qed
qed

lemma take_le_take:
  fixes xs :: "'a::linorder list"
  shows "m \<le> n \<Longrightarrow> take m xs \<le> take n xs"
proof (induction xs arbitrary: m n)
  case Nil
  then show ?case by simp
next
  case (Cons x xs)
  show ?case
  proof (cases m)
    case 0
    then show ?thesis by simp
  next
    case (Suc m')
    then obtain n' where "n = Suc n'" using Cons.prems by (cases n) auto
    with Suc Cons.prems Cons.IH [of m' n'] show ?thesis by simp
  qed
qed

text \<open>The records of an \<^verbatim>\<open>Index\<close>, the slot \<^verbatim>\<open>Index\<close> finds when the keys are sorted, and
  the slot the scanning loop stops at.\<close>

lemma record_length: "i < length s div 4 \<Longrightarrow> length (take 4 (drop (i * 4) s)) = 4"
  by simp

lemma Index_Elem_slot:
  "i < length s div 4 \<Longrightarrow> Index_Elem s i = Inr (take 4 (drop (i * 4) s))"
  by (simp add: Index_Elem_def)

lemma Index_records_nth:
  "i < length s div 4 \<Longrightarrow> Index_records s ! i = take 4 (drop (i * 4) s)"
  by (simp add: Index_records_def)

lemma Index_records_length: "length (Index_records s) = length s div 4"
  by (simp add: Index_records_def)

lemma Index_Index_found:
  assumes mono: "\<And>a b. a \<le> b \<Longrightarrow> b < length s div 4 \<Longrightarrow>
                   Index_key s (length key) a \<le> Index_key s (length key) b"
    and p: "p < length s div 4" "Index_key s (length key) p = key"
  shows "\<exists>q. Index_Index s key = Some q \<and> q \<le> p \<and> Index_key s (length key) q = key
             \<and> (\<forall>k<q. Index_key s (length key) k < key)"
proof -
  let ?K = "Index_key s (length key)"
  let ?f = "\<lambda>i. key \<le> ?K i"
  let ?r = "Search (length s div 4) ?f"
  have fm: "\<And>a b. a \<le> b \<Longrightarrow> b < length s div 4 \<Longrightarrow> ?f a \<Longrightarrow> ?f b"
    using mono order_trans by blast
  note S = Search_spec [where n = "length s div 4" and f = ?f, OF fm]
  have "\<not> p < ?r" using S(2) [where k = p] p by auto
  then have rp: "?r \<le> p" by simp
  then have rn: "?r < length s div 4" using p by simp
  have "key \<le> ?K ?r" using S(3) rn by simp
  moreover have "?K ?r \<le> key" using mono [OF rp p(1)] p(2) by simp
  ultimately have eq: "?K ?r = key" by simp
  have below: "\<forall>k<?r. ?K k < key" using S(2) by (auto simp: not_le)
  have "Index_Index s key = Some ?r"
    using rn eq by (simp add: Index_Index_def Let_def)
  with rp eq below show ?thesis by blast
qed

lemma scan_finds_from:
  assumes t: "t < length s div 4"
    and keys: "\<And>i. q0 \<le> i \<Longrightarrow> i \<le> t \<Longrightarrow> Index_key s (length key) i = key"
    and miss: "\<And>i. q0 \<le> i \<Longrightarrow> i < t \<Longrightarrow> \<not> p (take 4 (drop (i * 4) s))"
    and hit: "p (take 4 (drop (t * 4) s))"
  shows "q0 \<le> q \<Longrightarrow> q \<le> t \<Longrightarrow> scan s key p (Some q) = Inr (Some t)"
proof (induction "t - q" arbitrary: q)
  case 0
  then have "q = t" by simp
  then show ?case using t hit by (subst scan.simps) (simp add: Index_Elem_slot del: scan.simps)
next
  case (Suc d)
  then have qt: "q < t" by simp
  then have q: "q < length s div 4" using t by simp
  have k1: "Index_key s (length key) (q + 1) = key"
    using keys [of "q + 1"] qt Suc.prems by simp
  have "(q + 1) * 4 < length s div 4 * 4" using qt t by simp
  also have "length s div 4 * 4 \<le> length s" by simp
  finally have "(q + 1) * 4 < length s" .
  then have nx: "Index_Next s key q = Some (q + 1)"
    using k1 by (simp add: Index_Next_def)
  have "scan s key p (Some q) = scan s key p (Some (q + 1))"
    using miss [of q] qt q nx Suc.prems
    by (subst scan.simps) (simp add: Index_Elem_slot del: scan.simps)
  also have "\<dots> = Inr (Some t)"
    using Suc.hyps(1) [of "q + 1"] Suc.hyps(2) qt Suc.prems by (simp del: scan.simps)
  finally show ?case .
qed

section \<open>Resolving what was rendered\<close>

text \<open>In a \<^verbatim>\<open>lang\<close> table sorted by code, the two-byte keys do not decrease, and the first
  loop of \<open>getLangISO3\<close> stops at the slot that holds the three-letter code looked for.\<close>

lemma lang_sorted_nth:
  assumes "lang_sorted T" "a < b" "b < length (lang T) div 4"
  shows "langCode (take 4 (drop (a * 4) (lang T))) < langCode (take 4 (drop (b * 4) (lang T)))"
proof -
  have "map langCode (Index_records (lang T)) ! a < map langCode (Index_records (lang T)) ! b"
    using assms by (simp add: lang_sorted_def sorted_wrt_iff_nth_less Index_records_length)
  then show ?thesis using assms by (simp add: Index_records_length Index_records_nth)
qed

lemma take2_langCode: "length e = 4 \<Longrightarrow> take 2 (langCode e) = take 2 e"
  by (simp add: langCode_def)

lemma Index_key_2: "Index_key s 2 i = take 2 (take 4 (drop (i * 4) s))"
  by (simp add: Index_key_def)

lemma lang_key2_mono:
  assumes "lang_sorted T" "a \<le> b" "b < length (lang T) div 4"
  shows "Index_key (lang T) 2 a \<le> Index_key (lang T) 2 b"
proof (cases "a = b")
  case True
  then show ?thesis by simp
next
  case False
  then have ab: "a < b" using assms(2) by simp
  then have a: "a < length (lang T) div 4" using assms(3) by simp
  have "langCode (take 4 (drop (a * 4) (lang T))) \<le> langCode (take 4 (drop (b * 4) (lang T)))"
    using lang_sorted_nth [OF assms(1) ab assms(3)] by simp
  from take_le_mono [OF this, of 2] show ?thesis
    using a assms(3) by (simp add: Index_key_2 take2_langCode)
qed

lemma take3_eq:
  assumes "length x = 4" "length y = 4" "take 2 x = take 2 y" "x ! 2 = y ! 2"
  shows "take 3 x = take 3 y"
proof -
  have "take 3 x = take 2 x @ [x ! 2]" "take 3 y = take 2 y @ [y ! 2]"
    using assms(1,2) by (simp_all add: take_Suc_conv_app_nth numeral_3_eq_3 numeral_2_eq_2)
  then show ?thesis using assms(3,4) by simp
qed

lemma lang_scan_canonical:
  assumes srt: "lang_sorted T" and i: "i < length (lang T) div 4"
    and e3: "take 4 (drop (i * 4) (lang T)) ! 3 = 0"
    and s: "s = take 3 (take 4 (drop (i * 4) (lang T)))"
  shows "scan (lang T) (take 2 s) (\<lambda>e. e ! 3 = 0 \<and> e ! 2 = s ! 2)
           (Index_Index (lang T) (take 2 s)) = Inr (Some i)"
proof -
  let ?L = "lang T"
  let ?rec = "\<lambda>k. take 4 (drop (k * 4) ?L)"
  define key where "key = take 2 s"
  have len: "\<And>k. k < length ?L div 4 \<Longrightarrow> length (?rec k) = 4" by simp
  have lk: "length key = 2" using len [OF i] s by (simp add: key_def)
  have ki: "Index_key ?L 2 i = key"
    using len [OF i] s by (simp add: key_def Index_key_2)
  have s2: "s ! 2 = ?rec i ! 2" using s by simp
  have mono: "\<And>a b. a \<le> b \<Longrightarrow> b < length ?L div 4 \<Longrightarrow> Index_key ?L 2 a \<le> Index_key ?L 2 b"
    by (rule lang_key2_mono [OF srt])
  from Index_Index_found [of ?L key i, unfolded lk, OF mono i ki]
  obtain q where q: "Index_Index ?L key = Some q" "q \<le> i" "Index_key ?L 2 q = key"
    by blast
  have keys: "\<And>k. q \<le> k \<Longrightarrow> k \<le> i \<Longrightarrow> Index_key ?L 2 k = key"
  proof -
    fix k assume k: "q \<le> k" "k \<le> i"
    then have kn: "k < length ?L div 4" using i by simp
    have "key \<le> Index_key ?L 2 k" using mono [OF k(1) kn] q(3) by simp
    moreover have "Index_key ?L 2 k \<le> key" using mono [OF k(2) i] ki by simp
    ultimately show "Index_key ?L 2 k = key" by simp
  qed
  have miss: "\<And>k. q \<le> k \<Longrightarrow> k < i \<Longrightarrow> \<not> (?rec k ! 3 = 0 \<and> ?rec k ! 2 = s ! 2)"
  proof
    fix k assume k: "q \<le> k" "k < i" and p: "?rec k ! 3 = 0 \<and> ?rec k ! 2 = s ! 2"
    have kn: "k < length ?L div 4" using k i by simp
    have "Index_key ?L 2 k = Index_key ?L 2 i" using keys [of k] k ki by simp
    then have "take 2 (?rec k) = take 2 (?rec i)" unfolding Index_key_2 .
    then have "take 3 (?rec k) = take 3 (?rec i)"
      using take3_eq [OF len [OF kn] len [OF i]] p s2 by simp
    then have "langCode (?rec k) = langCode (?rec i)"
      using p e3 by (simp add: langCode_def)
    then show False using lang_sorted_nth [OF srt k(2) i] by simp
  qed
  have hit: "?rec i ! 3 = 0 \<and> ?rec i ! 2 = s ! 2" using e3 s2 by simp
  have "scan ?L key (\<lambda>e. e ! 3 = 0 \<and> e ! 2 = s ! 2) (Some q) = Inr (Some i)"
    by (rule scan_finds_from [where ?q0.0 = q and key = key and s = ?L and t = i and q = q
          and p = "\<lambda>e. e ! 3 = 0 \<and> e ! 2 = s ! 2", unfolded lk, OF i keys miss hit order_refl q(2)])
  then show ?thesis using q(1) by (simp add: key_def del: scan.simps)
qed

lemma toLower_id: "isLower c \<Longrightarrow> toLower c = c"
  by (simp add: toLower_def isLower_not_isUpper)

lemma toUpper_id: "isUpper c \<Longrightarrow> toUpper c = c"
  using isLower_not_isUpper [of c] by (auto simp: toUpper_def)

lemma FixCase_lower:
  "list_all isLower form \<Longrightarrow> length s = length form \<Longrightarrow> list_all isLetter s \<Longrightarrow>
   FixCase form s = Some (map toLower s)"
proof (induction form s rule: FixCase.induct)
  case 1
  then show ?case by simp
next
  case (2 f fs c cs)
  then show ?case by (simp add: fixByte_def isLower_not_isDigit isLower_not_isUpper)
qed simp_all

lemma FixCase_lower_id:
  assumes "list_all isLower form" "length s = length form" "list_all isLower s"
  shows "FixCase form s = Some s"
proof -
  have "list_all isLetter s" using assms(3) by (auto simp: list_all_iff isLetter_def)
  moreover have "map toLower s = s" using assms(3) by (auto simp: list_all_iff toLower_id intro: map_idI)
  ultimately show ?thesis using FixCase_lower [OF assms(1,2)] by simp
qed

lemma FixCase_upper_id:
  assumes "list_all isUpper form" "length s = length form" "list_all isUpper s"
  shows "FixCase form s = Some s"
proof -
  have "list_all isLetter s" using assms(3) by (auto simp: list_all_iff isLetter_def)
  moreover have "map toUpper s = s" using assms(3) by (auto simp: list_all_iff toUpper_id intro: map_idI)
  ultimately show ?thesis using FixCase_upper [OF assms(1,2)] by simp
qed

lemma templates_lower: "list_all isLower (str ''und'')" "list_all isLower (str ''zz'')"
  "length (str ''und'') = 3" "length (str ''zz'') = 2" "list_all isUpper (str ''ZZ'')" "length (str ''ZZ'') = 2"
  by (simp_all add: str_def isLower_def isUpper_def)

lemma getLangISO3_canonical:
  assumes srt: "lang_sorted T" and i: "i < length (lang T) div 4"
    and e3: "take 4 (drop (i * 4) (lang T)) ! 3 = 0"
    and s: "s = take 3 (take 4 (drop (i * 4) (lang T)))"
    and low: "list_all isLower s"
  shows "getLangISO3 T s = (if of_nat i = nonCanonicalUnd T then Inr 0 else Inr (of_nat i))"
proof -
  have "length s = 3" using s i by simp
  then have f: "FixCase (str ''und'') s = Some s"
    using FixCase_lower_id [OF templates_lower(1) _ low] templates_lower(3) by simp
  show ?thesis
    unfolding getLangISO3_def f using lang_scan_canonical [OF srt i e3 s]
    by (simp del: scan.simps)
qed

text \<open>A two-letter record is the first record with its two-byte key, so \<open>getLangISO2\<close>
  finds it.\<close>

lemma getLangISO2_slot:
  assumes srt: "lang_sorted T" and i: "i < length (lang T) div 4"
    and e3: "take 4 (drop (i * 4) (lang T)) ! 3 \<noteq> 0"
    and s: "s = take 2 (take 4 (drop (i * 4) (lang T)))"
    and low: "list_all isLower s"
  shows "getLangISO2 T s = Inr (of_nat i)"
proof -
  let ?L = "lang T"
  let ?rec = "\<lambda>k. take 4 (drop (k * 4) ?L)"
  have len: "\<And>k. k < length ?L div 4 \<Longrightarrow> length (?rec k) = 4" by simp
  have ls: "length s = 2" using s len [OF i] by simp
  have f: "FixCase (str ''zz'') s = Some s"
    using FixCase_lower_id [OF templates_lower(2) _ low] templates_lower(4) ls by simp
  have ki: "Index_key ?L 2 i = s" using s by (simp add: Index_key_2)
  have ci: "langCode (?rec i) = s" using e3 s by (simp add: langCode_def)
  have mono: "\<And>a b. a \<le> b \<Longrightarrow> b < length ?L div 4 \<Longrightarrow> Index_key ?L 2 a \<le> Index_key ?L 2 b"
    by (rule lang_key2_mono [OF srt])
  from Index_Index_found [of ?L s i, unfolded ls, OF mono i ki]
  obtain q where q: "Index_Index ?L s = Some q" "q \<le> i" "Index_key ?L 2 q = s"
    by blast
  have "q = i"
  proof (rule ccontr)
    assume "q \<noteq> i"
    then have qi: "q < i" using q(2) by simp
    then have qn: "q < length ?L div 4" using i by simp
    have "s \<le> langCode (?rec q)"
    proof (cases "?rec q ! 3 = 0")
      case True
      have "take 2 (?rec q) \<le> take 3 (?rec q)" by (rule take_le_take) simp
      then show ?thesis using True q(3) by (simp add: langCode_def Index_key_2)
    next
      case False
      then show ?thesis using q(3) by (simp add: langCode_def Index_key_2)
    qed
    moreover have "langCode (?rec q) < s" using lang_sorted_nth [OF srt qi i] ci by simp
    ultimately show False by simp
  qed
  then show ?thesis
    unfolding getLangISO2_def f using q(1) i e3 by (simp add: Index_Elem_slot)
qed

lemma langID_roundtrip:
  assumes srt: "lang_sorted T" and slot: "lang_slot T b" and nund: "b \<noteq> nonCanonicalUnd T"
  shows "langID_String T b = Inr (langCode (take 4 (drop (unat b * 4) (lang T))))
       \<and> getLangID T (langCode (take 4 (drop (unat b * 4) (lang T)))) = Inr b"
proof -
  let ?e = "take 4 (drop (unat b * 4) (lang T))"
  from slot have b0: "b \<noteq> 0" and off: "\<not> langNoIndexOffset T \<le> b"
    and i: "unat b < length (lang T) div 4" and low: "list_all isLower (langCode ?e)"
    by (auto simp: lang_slot_def)
  have len: "length ?e = 4" using i by simp
  have r: "langID_String T b = Inr (langCode ?e)"
    using b0 off i by (simp add: langID_String_def Index_Elem_slot langCode_def)
  have ob: "(of_nat (unat b) :: 16 word) = b" by simp
  have "getLangID T (langCode ?e) = Inr b"
  proof (cases "?e ! 3 = 0")
    case True
    then have c: "langCode ?e = take 3 ?e" by (simp add: langCode_def)
    have "getLangISO3 T (take 3 ?e) = Inr b"
      using getLangISO3_canonical [OF srt i True refl] low nund unfolding c ob by simp
    then show ?thesis using len by (simp add: c getLangID_def)
  next
    case False
    then have c: "langCode ?e = take 2 ?e" by (simp add: langCode_def)
    have "getLangISO2 T (take 2 ?e) = Inr b"
      using getLangISO2_slot [OF srt i False refl] low unfolding c ob by simp
    then show ?thesis using len by (simp add: c getLangID_def)
  qed
  with r show ?thesis by simp
qed

lemma region_sorted_nth:
  assumes "region_sorted T" "a < b" "b < length (regionISO T) div 4"
  shows "Index_key (regionISO T) 2 a < Index_key (regionISO T) 2 b"
proof -
  have "map (take 2) (Index_records (regionISO T)) ! a < map (take 2) (Index_records (regionISO T)) ! b"
    using assms by (simp add: region_sorted_def sorted_wrt_iff_nth_less Index_records_length)
  then show ?thesis using assms by (simp add: Index_records_length Index_records_nth Index_key_2)
qed

lemma Index_Index_Some:
  "Index_Index s key = Some i \<Longrightarrow> i < length s div 4 \<and> Index_key s (length key) i = key"
  by (auto simp: Index_Index_def Let_def split: if_splits)

lemma regionID_roundtrip:
  assumes srt: "region_sorted T" and slot: "region_slot T r"
  shows "regionID_String T r
           = Inr (take 2 (take 4 (drop (unat (r - isoRegionOffset T) * 4) (regionISO T))))
       \<and> getRegionID T (take 2 (take 4 (drop (unat (r - isoRegionOffset T) * 4) (regionISO T))))
           = Inr r"
proof -
  let ?R = "regionISO T"
  let ?i = "unat (r - isoRegionOffset T)"
  let ?s = "take 2 (take 4 (drop (?i * 4) ?R))"
  from slot have off: "\<not> r < isoRegionOffset T" and i: "?i < length ?R div 4"
    and up: "list_all isUpper ?s"
    by (auto simp: region_slot_def)
  have ls: "length ?s = 2" using i by simp
  have r: "regionID_String T r = Inr ?s"
    using off i by (simp add: regionID_String_def Index_Elem_slot)
  have f: "FixCase (str ''ZZ'') ?s = Some ?s"
    using FixCase_upper_id [OF templates_lower(5) _ up] templates_lower(6) ls by simp
  have ki: "Index_key ?R 2 ?i = ?s" by (simp add: Index_key_2)
  have mono: "\<And>a b. a \<le> b \<Longrightarrow> b < length ?R div 4 \<Longrightarrow> Index_key ?R 2 a \<le> Index_key ?R 2 b"
  proof -
    fix a b assume "a \<le> b" "b < length ?R div 4"
    then show "Index_key ?R 2 a \<le> Index_key ?R 2 b"
      using region_sorted_nth [OF srt, of a b] by (cases "a = b") auto
  qed
  from Index_Index_found [of ?R ?s ?i, unfolded ls, OF mono i ki]
  obtain q where q: "Index_Index ?R ?s = Some q" "q \<le> ?i" "Index_key ?R 2 q = ?s"
    by blast
  have "q = ?i"
    using region_sorted_nth [OF srt, of q ?i] q(2,3) i ki by (cases "q = ?i") auto
  then have "findIndex ?R ?s (str ''ZZ'') = Inr ?i"
    using q(1) f by (simp add: findIndex_def)
  then have "getRegionISO2 T ?s = Inr (of_nat ?i + isoRegionOffset T)"
    by (simp add: getRegionISO2_def)
  then have "getRegionID T ?s = Inr r"
    using ls by (simp add: getRegionID_def)
  with r show ?thesis by simp
qed

lemma sample_sorted: "lang_sorted sampleTables" "region_sorted sampleTables"
  by (simp_all add: lang_sorted_def region_sorted_def sampleTables_def Index_records_def
      langCode_def str_def upt_rec [of _ "numeral _"])

text \<open>
  C4 (as the code has it): when \<^verbatim>\<open>lang\<close> is sorted by code and \<^verbatim>\<open>regionISO\<close> by its
  two-letter codes, every table-backed language identifier other than \<^verbatim>\<open>nonCanonicalUnd\<close>
  and every table-backed region identifier is rendered to a string that resolves to the
  identifier again.
\<close>

theorem resolve_render_roundtrip:
  assumes "lang_sorted T" and "region_sorted T"
  shows "(lang_slot T b \<and> b \<noteq> nonCanonicalUnd T \<longrightarrow>
            (case langID_String T b of Inl e \<Rightarrow> False | Inr s \<Rightarrow> getLangID T s = Inr b))
       \<and> (region_slot T r \<longrightarrow>
            (case regionID_String T r of Inl e \<Rightarrow> False | Inr s \<Rightarrow> getRegionID T s = Inr r))"
  using langID_roundtrip [OF assms(1), of b] regionID_roundtrip [OF assms(2), of r]
  by simp

theorem resolve_render_roundtrip_witness:
  "lang_sorted sampleTables \<and> region_sorted sampleTables
   \<and> lang_slot sampleTables 4 \<and> 4 \<noteq> nonCanonicalUnd sampleTables
   \<and> langID_String sampleTables 4 = Inr (str ''en'') \<and> getLangID sampleTables (str ''en'') = Inr 4
   \<and> lang_slot sampleTables 5 \<and> 5 \<noteq> nonCanonicalUnd sampleTables
   \<and> langID_String sampleTables 5 = Inr (str ''haw'') \<and> getLangID sampleTables (str ''haw'') = Inr 5
   \<and> region_slot sampleTables 7
   \<and> regionID_String sampleTables 7 = Inr (str ''US'') \<and> getRegionID sampleTables (str ''US'') = Inr 7"
proof -
  have l4: "lang_slot sampleTables 4" and l5: "lang_slot sampleTables 5"
    and r6: "region_slot sampleTables 7"
    by (simp_all add: lang_slot_def region_slot_def sampleTables_def langCode_def str_def
        isLower_def isUpper_def)
  have n: "4 \<noteq> nonCanonicalUnd sampleTables" "5 \<noteq> nonCanonicalUnd sampleTables"
    by (simp_all add: sampleTables_def)
  have s4: "langID_String sampleTables 4 = Inr (str ''en'')"
    and s5: "langID_String sampleTables 5 = Inr (str ''haw'')"
    and s6: "regionID_String sampleTables 7 = Inr (str ''US'')"
    by code_simp+
  show ?thesis
    using resolve_render_roundtrip [OF sample_sorted, of 4 7]
      resolve_render_roundtrip [OF sample_sorted, of 5 7]
      sample_sorted l4 l5 r6 n s4 s5 s6
    by simp
qed

text \<open>The claim as stated, for every table-backed identifier, fails at the language
  identifier \<^verbatim>\<open>nonCanonicalUnd\<close> (7 in the sample registry): its slot holds "und", which
  \<open>getLangISO3\<close> resolves to 0.\<close>

theorem resolve_render_und_counterexample:
  "lang_slot sampleTables 7 \<and> langID_String sampleTables 7 = Inr (str ''und'')
   \<and> getLangID sampleTables (str ''und'') = Inr 0
   \<and> getLangID sampleTables (str ''und'') \<noteq> Inr 7"
  by code_simp

section \<open>The sentinels\<close>

lemma FixCase_sentinels:
  "FixCase (str ''ZZ'') (str ''ZZ'') = Some (str ''ZZ'')"
  "FixCase (str ''Zzzz'') (str ''Zzzz'') = Some (str ''Zzzz'')"
  "FixCase (str ''XXX'') (str ''XXX'') = Some (str ''XXX'')"
  by (simp_all add: str_def fixByte_def isDigit_def isUpper_def isLower_def isLetter_def
      toUpper_def toLower_def)

lemma Index_sorted_nth:
  assumes "Index_sorted n s" "a < b" "b < length s div 4"
  shows "Index_key s n a < Index_key s n b"
proof -
  have "map (take n) (Index_records s) ! a < map (take n) (Index_records s) ! b"
    using assms by (simp add: Index_sorted_def sorted_wrt_iff_nth_less Index_records_length)
  then show ?thesis using assms by (simp add: Index_records_length Index_records_nth Index_key_def)
qed

text \<open>Where the keys increase strictly, \<^verbatim>\<open>Index\<close> finds the one slot that holds the key.\<close>

lemma Index_Index_slot:
  assumes strict: "\<And>a b. a < b \<Longrightarrow> b < length s div 4 \<Longrightarrow>
                     Index_key s (length key) a < Index_key s (length key) b"
    and i: "i < length s div 4" and k: "Index_key s (length key) i = key"
  shows "Index_Index s key = Some i"
proof -
  have mono: "\<And>a b. a \<le> b \<Longrightarrow> b < length s div 4 \<Longrightarrow>
                Index_key s (length key) a \<le> Index_key s (length key) b"
  proof -
    fix a b assume "a \<le> b" "b < length s div 4"
    then show "Index_key s (length key) a \<le> Index_key s (length key) b"
      using strict [of a b] by (cases "a = b") auto
  qed
  from Index_Index_found [OF mono i k]
  obtain q where q: "Index_Index s key = Some q" "q \<le> i" "Index_key s (length key) q = key"
    by blast
  have "q = i" using strict [of q i] q(2,3) i k by (cases "q = i") auto
  with q(1) show ?thesis by simp
qed

text \<open>
  C3 (as the code has it): rendering identifier 0 yields "und", "ZZ", "Zzzz" and "XXX",
  and resolving "und" yields language identifier 0 (the table holding "und" in the slot
  \<^verbatim>\<open>nonCanonicalUnd\<close>). Resolving "ZZ", "Zzzz" or "XXX" does not yield 0: in sorted tables
  it succeeds with the slot of the table that holds the code (\<open>zz\<close>, \<open>zs\<close>, \<open>xs\<close>), for
  regions moved up by \<^verbatim>\<open>isoRegionOffset\<close>; that slot is not slot 0, which in \<^verbatim>\<open>script\<close>
  and \<^verbatim>\<open>currency\<close> holds a placeholder.
\<close>

theorem sentinel_identifiers:
  assumes srt: "lang_sorted T"
    and und: "unat (nonCanonicalUnd T) < length (lang T) div 4"
      "take 4 (drop (unat (nonCanonicalUnd T) * 4) (lang T)) = str ''und'' @ [0]"
    and off: "0 < isoRegionOffset T" "length (regionISO T) div 4 + unat (isoRegionOffset T) \<le> 2 ^ 16"
    and scr: "length (script T) div 4 \<le> 2 ^ 8" "take 4 (script T) \<noteq> str ''Zzzz''"
    and cur: "length (currency T) div 4 \<le> 2 ^ 16" "take 3 (currency T) \<noteq> str ''XXX''"
    and rslot: "region_sorted T" "zz < length (regionISO T) div 4"
      "Index_key (regionISO T) 2 zz = str ''ZZ''"
    and sslot: "Index_sorted 4 (script T)" "zs < length (script T) div 4"
      "Index_key (script T) 4 zs = str ''Zzzz''"
    and cslot: "Index_sorted 3 (currency T)" "xs < length (currency T) div 4"
      "Index_key (currency T) 3 xs = str ''XXX''"
  shows "getLangID T (str ''und'') = Inr 0 \<and> langID_String T 0 = Inr (str ''und'')
       \<and> regionID_String T 0 = Inr (str ''ZZ'')
       \<and> scriptID_String T 0 = Inr (str ''Zzzz'')
       \<and> currencyID_String T 0 = Inr (str ''XXX'')
       \<and> getRegionID T (str ''ZZ'') \<noteq> Inr 0
       \<and> getScriptID (script T) (str ''Zzzz'') \<noteq> Inr 0
       \<and> getCurrencyID (currency T) (str ''XXX'') \<noteq> Inr 0
       \<and> getRegionID T (str ''ZZ'') = Inr (of_nat zz + isoRegionOffset T)
       \<and> getScriptID (script T) (str ''Zzzz'') = Inr (of_nat zs)
       \<and> getCurrencyID (currency T) (str ''XXX'') = Inr (of_nat xs)
       \<and> zs \<noteq> 0 \<and> xs \<noteq> 0"
proof (intro conjI)
  have e3: "take 4 (drop (unat (nonCanonicalUnd T) * 4) (lang T)) ! 3 = 0"
    and s: "str ''und'' = take 3 (take 4 (drop (unat (nonCanonicalUnd T) * 4) (lang T)))"
    unfolding und(2) by (simp_all add: str_def)
  have "getLangISO3 T (str ''und'') = Inr 0"
    using getLangISO3_canonical [OF srt und(1) e3 s templates_lower(1)] by simp
  then show "getLangID T (str ''und'') = Inr 0"
    by (simp add: getLangID_def templates_lower(3))
  show "langID_String T 0 = Inr (str ''und'')" by (simp add: langID_String_def)
  show "regionID_String T 0 = Inr (str ''ZZ'')" using off(1) by (simp add: regionID_String_def)
  show "scriptID_String T 0 = Inr (str ''Zzzz'')" by (simp add: scriptID_String_def)
  show "currencyID_String T 0 = Inr (str ''XXX'')" by (simp add: currencyID_String_def)
  show "getRegionID T (str ''ZZ'') \<noteq> Inr 0"
  proof
    assume a: "getRegionID T (str ''ZZ'') = Inr 0"
    then obtain i where i: "Index_Index (regionISO T) (str ''ZZ'') = Some i"
      and z: "(of_nat i :: 16 word) + isoRegionOffset T = 0"
      by (auto simp: getRegionID_def getRegionISO2_def findIndex_def FixCase_sentinels
          templates_lower(6) split: option.splits)
    have "i < length (regionISO T) div 4" using Index_Index_Some [OF i] by simp
    then have b: "i + unat (isoRegionOffset T) < 2 ^ 16" using off(2) by simp
    then have "i < 2 ^ 16" by simp
    then have "unat (of_nat i :: 16 word) = i" by (simp add: unat_of_nat)
    then have "unat ((of_nat i :: 16 word) + isoRegionOffset T) = i + unat (isoRegionOffset T)"
      using b by (simp add: unat_word_ariths)
    moreover have "0 < unat (isoRegionOffset T)" using off(1) by (simp add: word_less_nat_alt)
    ultimately show False using z by simp
  qed
  show "getScriptID (script T) (str ''Zzzz'') \<noteq> Inr 0"
  proof
    assume a: "getScriptID (script T) (str ''Zzzz'') = Inr 0"
    then obtain i where i: "Index_Index (script T) (str ''Zzzz'') = Some i"
      and z: "(of_nat i :: 8 word) = 0"
      by (auto simp: getScriptID_def findIndex_def FixCase_sentinels split: option.splits)
    have b: "i < length (script T) div 4" and k: "Index_key (script T) (length (str ''Zzzz'')) i = str ''Zzzz''"
      using Index_Index_Some [OF i] by simp_all
    have "i < 2 ^ 8" using b scr(1) by simp
    then have "unat (of_nat i :: 8 word) = i" by (simp add: unat_of_nat)
    then have "i = 0" using z by simp
    moreover have "length (str ''Zzzz'') = 4" by (simp add: str_def)
    ultimately have "take 4 (script T) = str ''Zzzz''" using k by (simp add: Index_key_def)
    then show False using scr(2) by simp
  qed
  show "getCurrencyID (currency T) (str ''XXX'') \<noteq> Inr 0"
  proof
    assume a: "getCurrencyID (currency T) (str ''XXX'') = Inr 0"
    then obtain i where i: "Index_Index (currency T) (str ''XXX'') = Some i"
      and z: "(of_nat i :: 16 word) = 0"
      by (auto simp: getCurrencyID_def findIndex_def FixCase_sentinels split: option.splits)
    have b: "i < length (currency T) div 4" and k: "Index_key (currency T) (length (str ''XXX'')) i = str ''XXX''"
      using Index_Index_Some [OF i] by simp_all
    have "i < 2 ^ 16" using b cur(1) by simp
    then have "unat (of_nat i :: 16 word) = i" by (simp add: unat_of_nat)
    then have "i = 0" using z by simp
    moreover have "length (str ''XXX'') = 3" by (simp add: str_def)
    ultimately have "take 3 (take 4 (currency T)) = str ''XXX''" using k by (simp add: Index_key_def)
    then show False using cur(2) by simp
  qed
  have lz: "length (str ''ZZ'') = 2" and ls: "length (str ''Zzzz'') = 4"
    and lx: "length (str ''XXX'') = 3"
    by (simp_all add: str_def)
  have "Index_Index (regionISO T) (str ''ZZ'') = Some zz"
    using Index_Index_slot [of "regionISO T" "str ''ZZ''" zz, unfolded lz]
      region_sorted_nth [OF rslot(1)] rslot(2,3) by simp
  then show "getRegionID T (str ''ZZ'') = Inr (of_nat zz + isoRegionOffset T)"
    by (simp add: getRegionID_def getRegionISO2_def findIndex_def FixCase_sentinels lz)
  have "Index_Index (script T) (str ''Zzzz'') = Some zs"
    using Index_Index_slot [of "script T" "str ''Zzzz''" zs, unfolded ls]
      Index_sorted_nth [OF sslot(1)] sslot(2,3) by simp
  then show "getScriptID (script T) (str ''Zzzz'') = Inr (of_nat zs)"
    by (simp add: getScriptID_def findIndex_def FixCase_sentinels)
  have "Index_Index (currency T) (str ''XXX'') = Some xs"
    using Index_Index_slot [of "currency T" "str ''XXX''" xs, unfolded lx]
      Index_sorted_nth [OF cslot(1)] cslot(2,3) by simp
  then show "getCurrencyID (currency T) (str ''XXX'') = Inr (of_nat xs)"
    by (simp add: getCurrencyID_def findIndex_def FixCase_sentinels)
  show "zs \<noteq> 0"
  proof
    assume "zs = 0"
    then have "take 4 (script T) = str ''Zzzz''" using sslot(3) by (simp add: Index_key_def)
    then show False using scr(2) by simp
  qed
  show "xs \<noteq> 0"
  proof
    assume "xs = 0"
    then have "take 3 (take 4 (currency T)) = str ''XXX''" using cslot(3) by (simp add: Index_key_def)
    then show False using cur(2) by simp
  qed
qed


theorem sentinel_identifiers_witness:
  "lang_sorted sampleTables
   \<and> unat (nonCanonicalUnd sampleTables) < length (lang sampleTables) div 4
   \<and> take 4 (drop (unat (nonCanonicalUnd sampleTables) * 4) (lang sampleTables)) = str ''und'' @ [0]
   \<and> 0 < isoRegionOffset sampleTables
   \<and> length (regionISO sampleTables) div 4 + unat (isoRegionOffset sampleTables) \<le> 2 ^ 16
   \<and> length (script sampleTables) div 4 \<le> 2 ^ 8 \<and> take 4 (script sampleTables) \<noteq> str ''Zzzz''
   \<and> length (currency sampleTables) div 4 \<le> 2 ^ 16 \<and> take 3 (currency sampleTables) \<noteq> str ''XXX''
   \<and> region_sorted sampleTables \<and> 6 < length (regionISO sampleTables) div 4
   \<and> Index_key (regionISO sampleTables) 2 6 = str ''ZZ''
   \<and> Index_sorted 4 (script sampleTables) \<and> 2 < length (script sampleTables) div 4
   \<and> Index_key (script sampleTables) 4 2 = str ''Zzzz''
   \<and> Index_sorted 3 (currency sampleTables) \<and> 3 < length (currency sampleTables) div 4
   \<and> Index_key (currency sampleTables) 3 3 = str ''XXX''
   \<and> getLangID sampleTables (str ''und'') = Inr 0
   \<and> getRegionID sampleTables (str ''ZZ'') = Inr 8
   \<and> getScriptID (script sampleTables) (str ''Zzzz'') = Inr 2
   \<and> getCurrencyID (currency sampleTables) (str ''XXX'') = Inr 3"
proof -
  have u: "unat (nonCanonicalUnd sampleTables) < length (lang sampleTables) div 4"
    "take 4 (drop (unat (nonCanonicalUnd sampleTables) * 4) (lang sampleTables)) = str ''und'' @ [0]"
    by (simp_all add: sampleTables_def str_def)
  have o: "0 < isoRegionOffset sampleTables"
    "length (regionISO sampleTables) div 4 + unat (isoRegionOffset sampleTables) \<le> 2 ^ 16"
    by (simp_all add: sampleTables_def str_def)
  have sc: "length (script sampleTables) div 4 \<le> 2 ^ 8" "take 4 (script sampleTables) \<noteq> str ''Zzzz''"
    by (simp_all add: sampleTables_def str_def)
  have cu: "length (currency sampleTables) div 4 \<le> 2 ^ 16" "take 3 (currency sampleTables) \<noteq> str ''XXX''"
    by (simp_all add: sampleTables_def str_def)
  have rs: "6 < length (regionISO sampleTables) div 4"
    "Index_key (regionISO sampleTables) 2 6 = str ''ZZ''"
    by (simp_all add: sampleTables_def str_def Index_key_def)
  have ss: "Index_sorted 4 (script sampleTables)" "2 < length (script sampleTables) div 4"
    "Index_key (script sampleTables) 4 2 = str ''Zzzz''"
    by (simp_all add: sampleTables_def str_def Index_key_def Index_sorted_def Index_records_def
        upt_rec [of _ "numeral _"])
  have cs: "Index_sorted 3 (currency sampleTables)" "3 < length (currency sampleTables) div 4"
    "Index_key (currency sampleTables) 3 3 = str ''XXX''"
    by (simp_all add: sampleTables_def str_def Index_key_def Index_sorted_def Index_records_def
        upt_rec [of _ "numeral _"])
  have off: "isoRegionOffset sampleTables = 2" by (simp add: sampleTables_def)
  show ?thesis
    using sentinel_identifiers [OF sample_sorted(1) u o sc cu sample_sorted(2) rs ss cs]
      sample_sorted u o sc cu rs ss cs off
    by simp
qed

text \<open>The claim as stated, that "ZZ", "Zzzz" and "XXX" resolve to identifier 0, fails on
  the sample registry: they resolve to the slots that hold them.\<close>

theorem sentinel_resolution_counterexample:
  "getRegionID sampleTables (str ''ZZ'') = Inr 8
   \<and> getScriptID (script sampleTables) (str ''Zzzz'') = Inr 2
   \<and> getCurrencyID (currency sampleTables) (str ''XXX'') = Inr 3"
  by code_simp

section \<open>Grandfathered tags: properties\<close>

text \<open>
  C8: the grandfathered tag "en-GB-oed" is found, its table value -2 selects the slice of
  \<open>altTags\<close> between the offsets \<open>altTagIndex ! 1 = 17\<close> and \<open>altTagIndex ! 2 = 28\<close>, and
  the result is the tag that \<^verbatim>\<open>Make\<close> builds from that slice, the literal "en-GB-x-oed".
\<close>

theorem grandfathered_en_GB_oed:
  "grandfathered C Make (str ''en-GB-oed'') = Inr (Make (str ''en-GB-x-oed''), True)
   \<and> map_of (grandfatheredMap C) (str ''en-GB-oed'') = Some (- 2)
   \<and> take (unat (altTagIndex ! 2) - unat (altTagIndex ! 1)) (drop (unat (altTagIndex ! 1)) altTags)
       = str ''en-GB-x-oed''"
  by (simp add: grandfathered_def grandfatheredMap_def str_def altTagIndex_def altTags_def at_def)

text \<open>
  C10: the resolver accepts the CLDR-specific tag "root": it returns ok = true and the
  zero tag with language identifier 0, the identifier of "und".
\<close>

theorem grandfathered_root:
  "grandfathered C Make (str ''root'') = Inr (zeroTag\<lparr>tag_lang := 0\<rparr>, True)
   \<and> tag_lang (zeroTag\<lparr>tag_lang := 0\<rparr>) = 0
   \<and> langID_String T (tag_lang (zeroTag\<lparr>tag_lang := 0\<rparr>)) = Inr (str ''und'')"
proof -
  have "grandfathered C Make (str ''root'') = Inr (zeroTag\<lparr>tag_lang := 0\<rparr>, True)"
    by (simp add: grandfathered_def grandfatheredMap_def str_def)
  moreover have "langID_String T 0 = Inr (str ''und'')"
    by (simp add: langID_String_def)
  ultimately show ?thesis by simp
qed

end
